theory Spec2Isabelle
  imports Main "HOL-Library.Word"
begin

unbundle bit_operations_syntax

section \<open>Common values\<close>

text \<open>
  Go's \<open>uint\<close> and \<open>uint64\<close> are taken at 64 bits. A run-time panic is a value of type
  \<open>panic\<close>; a Go \<open>error\<close> carries its message; a pointer that may be \<open>nil\<close> is an
  \<open>option\<close>.
\<close>

type_synonym uint = "64 word"
type_synonym uint64 = "64 word"

datatype panic = IndexOutOfRange | NilDereference | MakeSliceLenOutOfRange

datatype error = Error string

section \<open>The statement cache (cache.go)\<close>

text \<open>
  \<open>cacheItem\<close> keeps the SQL text and the prepared statement (\<open>*sql.Stmt\<close>, an opaque
  handle of type \<open>'s\<close>, possibly \<open>nil\<close>). \<open>Cacher.cache\<close> is a slice of maps, one per SQL
  type. Every map of the slice is made by \<open>NewCacher\<close> or \<open>ExtendType\<close>, so there is no
  \<open>nil\<close> map in it.
\<close>

record 's cacheItem =
  sql :: string
  stmt :: "'s option"

type_synonym 's table = "uint \<rightharpoonup> 's cacheItem"

record 's Cacher =
  cache :: "'s table list"

text \<open>
  The collaborators of the cache are outside it. \<open>Preparer.Prepare\<close> and the \<open>create\<close>
  closure act on a state \<open>'e\<close> (the database connection, whatever the closure captures);
  the package variable \<open>sqlPrinter\<close> is a sink acting on a state \<open>'h\<close> of its own (what
  has been printed). A call returns a pair as the Go method does: the statement and the
  error, either of which may be \<open>nil\<close>.
\<close>

type_synonym ('s, 'e) Preparer = "string \<Rightarrow> 'e \<Rightarrow> ('s option \<times> error option) \<times> 'e"

type_synonym 'e Creator = "'e \<Rightarrow> string \<times> 'e"

datatype arg = BoolArg bool | StringArg string

type_synonym 'h SQLPrinter = "string \<Rightarrow> arg list \<Rightarrow> 'h \<Rightarrow> 'h"

record ('s, 'h, 'e) world =
  cacher :: "'s Cacher"
  printed :: 'h
  db :: 'e

definition Print :: "'h SQLPrinter \<Rightarrow> bool \<Rightarrow> string \<Rightarrow> 'h \<Rightarrow> 'h" where
  "Print p fromcache q = p (''Cached: %t, SQL: %s'' @ [CHR 0x0A]) [BoolArg fromcache, StringArg q]"

definition defaultTypeEnd :: uint where
  "defaultTypeEnd = 6"

text \<open>
  \<open>make([]map[uint]cacheItem, n)\<close> with \<open>n\<close> a \<open>uint\<close> panics (\<open>makeslice: len out of
  range\<close>) when \<open>n\<close> does not fit an \<open>int\<close> or the slice is larger than the platform
  allocates. \<open>maxLen\<close> is the largest number of tables the platform allocates; it is a
  parameter of the two functions that call \<open>make\<close>.
\<close>

definition makeLen :: "nat \<Rightarrow> uint \<Rightarrow> bool" where
  "makeLen maxLen n = (unat n < 2 ^ 63 \<and> unat n \<le> maxLen)"

definition NewCacher :: "nat \<Rightarrow> uint \<Rightarrow> panic + 's Cacher" where
  "NewCacher maxLen types =
     (if makeLen maxLen types then Inr \<lparr>cache = replicate (unat types) Map.empty\<rparr>
      else Inl MakeSliceLenOutOfRange)"

definition Types :: "'s Cacher \<Rightarrow> uint" where
  "Types c = of_nat (length (cache c))"

definition ExtendType :: "nat \<Rightarrow> uint \<Rightarrow> 's Cacher \<Rightarrow> panic + uint \<times> 's Cacher" where
  "ExtendType maxLen typ c =
     (let l = length (cache c) in
      if unat typ > l
      then (if makeLen maxLen typ
            then Inr (typ - 1, c\<lparr>cache := cache c @ replicate (unat typ - l) Map.empty\<rparr>)
            else Inl MakeSliceLenOutOfRange)
      else Inr (typ - 1, c\<lparr>cache := take (unat typ) (cache c)\<rparr>))"

text \<open>
  \<open>c.cache[typ][id]\<close>: indexing the slice out of range panics; a missing key of the map
  is the \<open>!has\<close> case.
\<close>

definition lookup :: "'s Cacher \<Rightarrow> uint \<Rightarrow> uint \<Rightarrow> panic + 's cacheItem option" where
  "lookup c typ sqlid =
     (if unat typ < length (cache c) then Inr ((cache c ! unat typ) sqlid)
      else Inl IndexOutOfRange)"

definition store :: "'s Cacher \<Rightarrow> uint \<Rightarrow> uint \<Rightarrow> 's cacheItem \<Rightarrow> panic + 's Cacher" where
  "store c typ sqlid item =
     (if unat typ < length (cache c)
      then Inr (c\<lparr>cache := (cache c)[unat typ := (cache c ! unat typ)(sqlid \<mapsto> item)]\<rparr>)
      else Inl IndexOutOfRange)"

definition StmtById ::
  "'h SQLPrinter \<Rightarrow> ('s, 'e) Preparer \<Rightarrow> uint \<Rightarrow> uint \<Rightarrow> 'e Creator \<Rightarrow> ('s, 'h, 'e) world
     \<Rightarrow> (panic + 's option \<times> error option) \<times> ('s, 'h, 'e) world" where
  "StmtById sqlPrinter p typ sqlid create w =
     (case lookup (cacher w) typ sqlid of
        Inl pn \<Rightarrow> (Inl pn, w)
      | Inr (Some item) \<Rightarrow>
          (Inr (stmt item, None), w\<lparr>printed := Print sqlPrinter True (sql item) (printed w)\<rparr>)
      | Inr None \<Rightarrow>
          (let (sqltext, e1) = create (db w);
               w1 = w\<lparr>db := e1\<rparr>;
               w2 = w1\<lparr>printed := Print sqlPrinter False sqltext (printed w1)\<rparr>;
               ((st, err), e2) = p sqltext (db w2);
               w3 = w2\<lparr>db := e2\<rparr>
           in case err of
                Some e \<Rightarrow> (Inr (None, Some e), w3)
              | None \<Rightarrow>
                  (case store (cacher w3) typ sqlid \<lparr>sql = sqltext, stmt = st\<rparr> of
                     Inl pn \<Rightarrow> (Inl pn, w3)
                   | Inr c' \<Rightarrow> (Inr (st, None), w3\<lparr>cacher := c'\<rparr>))))"

definition GetStmt :: "uint \<Rightarrow> uint \<Rightarrow> 's Cacher \<Rightarrow> panic + string \<times> 's option" where
  "GetStmt typ sqlid c =
     (case lookup c typ sqlid of
        Inl pn \<Rightarrow> Inl pn
      | Inr None \<Rightarrow> Inr ('''', None)
      | Inr (Some item) \<Rightarrow> Inr (sql item, stmt item))"

definition SetStmt ::
  "('s, 'e) Preparer \<Rightarrow> uint \<Rightarrow> uint \<Rightarrow> string \<Rightarrow> ('s, 'h, 'e) world
     \<Rightarrow> (panic + 's option \<times> error option) \<times> ('s, 'h, 'e) world" where
  "SetStmt p typ sqlid q w =
     (let ((st, err), e1) = p q (db w);
          w1 = w\<lparr>db := e1\<rparr>
      in case err of
           Some e \<Rightarrow> (Inr (None, Some e), w1)
         | None \<Rightarrow>
             (case store (cacher w1) typ sqlid \<lparr>sql = q, stmt = st\<rparr> of
                Inl pn \<Rightarrow> (Inl pn, w1)
              | Inr c' \<Rightarrow> (Inr (st, None), w1\<lparr>cacher := c'\<rparr>)))"

definition PrepareStmt ::
  "('s, 'e) Preparer \<Rightarrow> uint \<Rightarrow> uint \<Rightarrow> ('s, 'h, 'e) world
     \<Rightarrow> (panic + string \<times> 's option \<times> error option) \<times> ('s, 'h, 'e) world" where
  "PrepareStmt p typ sqlid w =
     (case lookup (cacher w) typ sqlid of
        Inl pn \<Rightarrow> (Inl pn, w)
      | Inr None \<Rightarrow> (Inr ('''', None, None), w)
      | Inr (Some item) \<Rightarrow>
          (let ((st, err), e1) = p (sql item) (db w)
           in (Inr (sql item, st, err), w\<lparr>db := e1\<rparr>)))"

text \<open>
  A caller that asks for the same statement again and again, each time with a preparer
  and a builder of its choice, and collects what it gets.
\<close>

fun repeatStmtById ::
  "'h SQLPrinter \<Rightarrow> uint \<Rightarrow> uint \<Rightarrow> (('s, 'e) Preparer \<times> 'e Creator) list \<Rightarrow> ('s, 'h, 'e) world
     \<Rightarrow> (panic + 's option \<times> error option) list \<times> ('s, 'h, 'e) world" where
  "repeatStmtById sqlPrinter typ sqlid [] w = ([], w)"
| "repeatStmtById sqlPrinter typ sqlid ((p, create) # calls) w =
     (case StmtById sqlPrinter p typ sqlid create w of
        (r, w1) \<Rightarrow>
          (case repeatStmtById sqlPrinter typ sqlid calls w1 of
             (rs, w2) \<Rightarrow> (r # rs, w2)))"

text \<open>
  Collaborators for running the cache on concrete inputs: a printer that keeps every
  call it receives, a builder that counts its invocations in the state, a preparer that
  names the statement after its SQL, and one that always fails.
\<close>

definition logPrinter :: "(string \<times> arg list) list SQLPrinter" where
  "logPrinter format args h = h @ [(format, args)]"

definition countingCreator :: "string \<Rightarrow> nat Creator" where
  "countingCreator q n = (q, Suc n)"

definition goodPreparer :: "(string, 'e) Preparer" where
  "goodPreparer q e = ((Some (''stmt of '' @ q), None), e)"

definition badPreparer :: "(string, 'e) Preparer" where
  "badPreparer q e = ((None, Some (Error (''cannot prepare '' @ q))), e)"

definition world0 :: "(string, (string \<times> arg list) list, nat) world" where
  "world0 = \<lparr>cacher = \<lparr>cache = [Map.empty, Map.empty]\<rparr>, printed = [], db = 0\<rparr>"

definition world1 :: "(string, (string \<times> arg list) list, nat) world" where
  "world1 = \<lparr>cacher = \<lparr>cache = [Map.empty, [5 \<mapsto> \<lparr>sql = ''SELECT 1'', stmt = Some ''old''\<rparr>]]\<rparr>,
             printed = [], db = 0\<rparr>"

section \<open>Generated model code (the model template)\<close>

text \<open>
  The template is instantiated for one model with its declared fields. The constant of
  the field at position \<open>i\<close> is \<open>1 << iota\<close>, \<open>FieldEnd\<close> is the number of fields and
  \<open>FieldsAll\<close> is \<open>1 << FieldEnd - 1\<close>, which Go reads as \<open>(1 << FieldEnd) - 1\<close>. The
  constants are \<open>uint64\<close>, so a model that compiles has at most 64 fields.

  The receiver of \<open>Vals\<close> is the row, given by its field values in declared order. An
  assignment \<open>vals[index] = x\<close> panics when \<open>index\<close> is out of range. The two loops are
  the unrolled \<open>range\<close> blocks of the template: \<open>writeAll\<close> for the branch of
  \<open>FieldsAll\<close>, \<open>writeSelected\<close> for the other one, over the right-hand sides of the
  assignments in declared order.
\<close>

definition fieldBit :: "nat \<Rightarrow> uint64" where
  "fieldBit i = push_bit i 1"

definition FieldsAll :: "nat \<Rightarrow> uint64" where
  "FieldsAll FieldEnd = push_bit FieldEnd 1 - 1"

definition assign :: "'a list \<Rightarrow> nat \<Rightarrow> 'a \<Rightarrow> panic + 'a list" where
  "assign xs i x = (if i < length xs then Inr (xs[i := x]) else Inl IndexOutOfRange)"

fun writeAll :: "'a list \<Rightarrow> nat \<Rightarrow> 'a list \<Rightarrow> panic + 'a list" where
  "writeAll [] index vals = Inr vals"
| "writeAll (x # xs) index vals =
     (case assign vals index x of
        Inl pn \<Rightarrow> Inl pn
      | Inr vals' \<Rightarrow> writeAll xs (Suc index) vals')"

fun writeSelected :: "uint64 \<Rightarrow> 'a list \<Rightarrow> nat \<Rightarrow> nat \<Rightarrow> 'a list \<Rightarrow> panic + 'a list" where
  "writeSelected flds [] i index vals = Inr vals"
| "writeSelected flds (x # xs) i index vals =
     (if flds AND fieldBit i \<noteq> 0
      then (case assign vals index x of
              Inl pn \<Rightarrow> Inl pn
            | Inr vals' \<Rightarrow> writeSelected flds xs (Suc i) (Suc index) vals')
      else writeSelected flds xs (Suc i) index vals)"

definition Vals :: "'v list \<Rightarrow> uint64 \<Rightarrow> 'v list \<Rightarrow> panic + 'v list" where
  "Vals self flds vals =
     (if flds \<noteq> 0
      then (if flds = FieldsAll (length self)
            then writeAll self 0 vals
            else writeSelected flds self 0 0 vals)
      else Inr vals)"

text \<open>
  \<open>Ptrs\<close> stores \<open>&(self.Field)\<close>: the address of a field is the receiver's address
  \<open>self\<close> with the position of the field. \<open>FieldEnd\<close> is the number of fields of the
  model the template was instantiated for.
\<close>

datatype 'r fieldptr = FieldPtr 'r nat

definition Ptrs :: "nat \<Rightarrow> 'r \<Rightarrow> uint64 \<Rightarrow> 'r fieldptr list \<Rightarrow> panic + 'r fieldptr list" where
  "Ptrs FieldEnd self flds ptrs =
     (if flds \<noteq> 0
      then (if flds = FieldsAll FieldEnd
            then writeAll (map (FieldPtr self) [0..<FieldEnd]) 0 ptrs
            else writeSelected flds (map (FieldPtr self) [0..<FieldEnd]) 0 0 ptrs)
      else Inr ptrs)"

text \<open>
  The columns a mask selects, in declared order: the reference the two methods are
  compared with. (\<open>flds\<close> is the parameter \<open>fields\<close> of the two methods.)
\<close>

definition selected :: "nat \<Rightarrow> uint64 \<Rightarrow> nat list" where
  "selected FieldEnd flds = filter (\<lambda>i. bit flds i) [0..<FieldEnd]"

section \<open>Placeholder resolution (cmd/gomodel/sql\_conv.go)\<close>

text \<open>
  Modelled from the spec: the types \<open>Table\<close> and \<open>Visitor\<close> are declared outside the
  given sources. A table has a name and maps a field name to its column name
  (\<open>Fields.Get\<close> returns \<open>nil\<close> for an unknown field); the visitor maps a model name to
  its table (\<open>nil\<close> when the model is not registered). A \<open>bytes2.Buffer\<close> is the string
  written so far.
\<close>

record Table =
  Name :: string
  Fields :: "string \<rightharpoonup> string"

record Visitor =
  Models :: "string \<rightharpoonup> Table"

text \<open>
  \<open>for i := range sql\<close> visits the index of the first byte of each UTF-8 sequence of
  the string, and \<open>c := sql[i]\<close> is that byte: the other bytes of a multi-byte sequence
  are never seen by the loop body. An invalid or truncated sequence advances by one byte.
  \<open>first\<close> is the decoder's table for the leading byte: the length of the sequence and
  the range accepted for the second byte.
\<close>

definition first :: "nat \<Rightarrow> nat \<times> nat \<times> nat" where
  "first b =
     (if 0xC2 \<le> b \<and> b \<le> 0xDF then (2, 0x80, 0xBF)
      else if b = 0xE0 then (3, 0xA0, 0xBF)
      else if b = 0xED then (3, 0x80, 0x9F)
      else if 0xE1 \<le> b \<and> b \<le> 0xEF then (3, 0x80, 0xBF)
      else if b = 0xF0 then (4, 0x90, 0xBF)
      else if 0xF1 \<le> b \<and> b \<le> 0xF3 then (4, 0x80, 0xBF)
      else if b = 0xF4 then (4, 0x80, 0x8F)
      else (1, 0, 0))"

definition inRange :: "nat \<Rightarrow> nat \<Rightarrow> char \<Rightarrow> bool" where
  "inRange lo hi c = (lo \<le> of_char c \<and> (of_char c :: nat) \<le> hi)"

fun runeWidth :: "string \<Rightarrow> nat" where
  "runeWidth [] = 0"
| "runeWidth (c # cs) =
     (case first (of_char c) of (sz, lo, hi) \<Rightarrow>
        if sz = 1 then 1
        else if length (c # cs) < sz then 1
        else if \<not> inRange lo hi (cs ! 0) then 1
        else if sz \<le> 2 then 2
        else if \<not> inRange 0x80 0xBF (cs ! 1) then 1
        else if sz \<le> 3 then 3
        else if \<not> inRange 0x80 0xBF (cs ! 2) then 1
        else 4)"

fun rangeBytes :: "string \<Rightarrow> string" where
  "rangeBytes [] = []"
| "rangeBytes (c # cs) = c # rangeBytes (drop (runeWidth (c # cs) - 1) cs)"

text \<open>
  The two errors of \<open>errors.Newf\<close>, with the names filled in: \<open>"model %s isn't
  registered"\<close> and \<open>"field %s of model %s not found"\<close>.
\<close>

definition notRegistered :: "string \<Rightarrow> error" where
  "notRegistered model = Error (''model '' @ model @ '' isn'' @ [CHR 0x27] @ ''t registered'')"

definition fieldNotFound :: "string \<Rightarrow> string \<Rightarrow> error" where
  "fieldNotFound field model = Error (''field '' @ field @ '' of model '' @ model @ '' not found'')"

definition modelTable :: "Visitor \<Rightarrow> string \<Rightarrow> Table option \<times> error option" where
  "modelTable v modelbuf =
     (let model = modelbuf in
      case Models v model of
        None \<Rightarrow> (None, Some (notRegistered model))
      | Some t \<Rightarrow> (Some t, None))"

definition writeModel :: "Visitor \<Rightarrow> string \<Rightarrow> string \<Rightarrow> panic + string \<times> error option" where
  "writeModel v sqlbuf modelbuf =
     (case modelTable v modelbuf of
        (t, Some e) \<Rightarrow> Inr (sqlbuf, Some e)
      | (None, None) \<Rightarrow> Inl NilDereference
      | (Some t, None) \<Rightarrow> Inr (sqlbuf @ Name t, None))"

definition writeField ::
  "Visitor \<Rightarrow> Table option \<Rightarrow> bool \<Rightarrow> string \<Rightarrow> string \<Rightarrow> string \<Rightarrow> panic + string \<times> error option" where
  "writeField v table withModel sqlbuf modelbuf fieldbuf =
     (let field = fieldbuf in
      case table of
        None \<Rightarrow> Inl NilDereference
      | Some t \<Rightarrow>
          (case Fields t field of
             None \<Rightarrow> Inr (sqlbuf, Some (fieldNotFound field modelbuf))
           | Some col \<Rightarrow> Inr ((if withModel then sqlbuf @ Name t @ ''.'' else sqlbuf) @ col, None)))"

datatype state = INIT | PARSING_MODEL | PARSING_FIELD

record locals =
  state :: state
  sqlbuf :: string
  modelbuf :: string
  fieldbuf :: string
  table :: "Table option"
  withModel :: bool

text \<open>What one iteration of a loop does: go on, return an error, or panic.\<close>

datatype 'a flow = Next 'a | Return error | Panic panic

definition body :: "Visitor \<Rightarrow> locals \<Rightarrow> char \<Rightarrow> locals flow" where
  "body v l c =
     (case state l of
        INIT \<Rightarrow>
          (if c = CHR ''{''
           then Next (l\<lparr>state := PARSING_MODEL, withModel := False, modelbuf := [], fieldbuf := []\<rparr>)
           else Next (l\<lparr>sqlbuf := sqlbuf l @ [c]\<rparr>))
      | PARSING_MODEL \<Rightarrow>
          (if c = CHR ''}''
           then (case writeModel v (sqlbuf l) (modelbuf l) of
                   Inl pn \<Rightarrow> Panic pn
                 | Inr (sb, Some e) \<Rightarrow> Return e
                 | Inr (sb, None) \<Rightarrow> Next (l\<lparr>sqlbuf := sb, state := INIT\<rparr>))
           else if c = CHR ''.'' \<or> c = CHR '':''
           then (let l1 = (if c = CHR ''.'' then l\<lparr>withModel := True\<rparr> else l)
                 in case modelTable v (modelbuf l1) of
                      (t, Some e) \<Rightarrow> Return e
                    | (t, None) \<Rightarrow> Next (l1\<lparr>table := t, state := PARSING_FIELD\<rparr>))
           else Next (l\<lparr>modelbuf := modelbuf l @ [c]\<rparr>))
      | PARSING_FIELD \<Rightarrow>
          (if c = CHR '','' \<or> c = CHR ''}''
           then (case writeField v (table l) (withModel l) (sqlbuf l) (modelbuf l) (fieldbuf l) of
                   Inl pn \<Rightarrow> Panic pn
                 | Inr (sb, Some e) \<Rightarrow> Return e
                 | Inr (sb, None) \<Rightarrow>
                     (if c = CHR ''}''
                      then Next (l\<lparr>sqlbuf := sb, fieldbuf := [], state := INIT\<rparr>)
                      else Next (l\<lparr>sqlbuf := sb @ [c], fieldbuf := []\<rparr>)))
           else if c = CHR '' ''
           then Next (l\<lparr>sqlbuf := sqlbuf l @ [c]\<rparr>)
           else Next (l\<lparr>fieldbuf := fieldbuf l @ [c]\<rparr>)))"

fun loop :: "Visitor \<Rightarrow> locals \<Rightarrow> string \<Rightarrow> locals flow" where
  "loop v l [] = Next l"
| "loop v l (c # cs) =
     (case body v l c of
        Next l' \<Rightarrow> loop v l' cs
      | Return e \<Rightarrow> Return e
      | Panic pn \<Rightarrow> Panic pn)"

definition entry :: locals where
  "entry = \<lparr>state = INIT, sqlbuf = [], modelbuf = [], fieldbuf = [], table = None, withModel = False\<rparr>"

text \<open>
  \<open>conv\<close> has the named results \<open>(s string, err error)\<close>: the bare \<open>return\<close> on an error
  leaves \<open>s\<close> at its zero value, the empty string.
\<close>

definition conv :: "Visitor \<Rightarrow> string \<Rightarrow> panic + string \<times> error option" where
  "conv v q =
     (case loop v entry (rangeBytes q) of
        Next l \<Rightarrow> Inr (sqlbuf l, None)
      | Return e \<Rightarrow> Inr ('''', Some e)
      | Panic pn \<Rightarrow> Inl pn)"

text \<open>
  What the loop keeps true: while it reads a field list, \<open>table\<close> is the registered
  table of the model whose name is in \<open>modelbuf\<close>.
\<close>

definition tableKnown :: "Visitor \<Rightarrow> locals \<Rightarrow> bool" where
  "tableKnown v l =
     (state l = PARSING_FIELD \<longrightarrow>
        (case table l of None \<Rightarrow> False | Some t \<Rightarrow> Models v (modelbuf l) = Some t))"

text \<open>
  The placeholder syntax of the comment above \<open>conv\<close>, as the reference \<open>conv\<close> is
  compared with: a template is a sequence of literal text, \<open>{Model}\<close>,
  \<open>{Model:Field, Field}\<close> and \<open>{Model.Field, Field}\<close>. A field of a list comes with the
  number of spaces written before it. \<open>template\<close> is the text of a template and
  \<open>expected\<close> the SQL it stands for.
\<close>

datatype placeholder =
    Text string
  | Model string
  | Columns string bool "(nat \<times> string) list"

fun fieldList :: "(nat \<times> string) list \<Rightarrow> string" where
  "fieldList [] = []"
| "fieldList [(k, f)] = replicate k (CHR '' '') @ f"
| "fieldList ((k, f) # fs) = replicate k (CHR '' '') @ f @ '','' @ fieldList fs"

fun template1 :: "placeholder \<Rightarrow> string" where
  "template1 (Text s) = s"
| "template1 (Model m) = ''{'' @ m @ ''}''"
| "template1 (Columns m qualified fs) =
     ''{'' @ m @ (if qualified then ''.'' else '':'') @ fieldList fs @ ''}''"

definition template :: "placeholder list \<Rightarrow> string" where
  "template ps = concat (map template1 ps)"

text \<open>
  The beginning of a field list, each field followed by its comma: \<open>Field, Field,\<close>.
\<close>

fun fieldPrefix :: "(nat \<times> string) list \<Rightarrow> string" where
  "fieldPrefix [] = []"
| "fieldPrefix ((k, f) # fs) = replicate k (CHR '' '') @ f @ '','' @ fieldPrefix fs"

definition column :: "Table \<Rightarrow> bool \<Rightarrow> string \<Rightarrow> string" where
  "column t qualified f =
     (if qualified then Name t @ ''.'' else []) @ (case Fields t f of Some col \<Rightarrow> col | None \<Rightarrow> [])"

fun columnList :: "Table \<Rightarrow> bool \<Rightarrow> (nat \<times> string) list \<Rightarrow> string" where
  "columnList t qualified [] = []"
| "columnList t qualified [(k, f)] = replicate k (CHR '' '') @ column t qualified f"
| "columnList t qualified ((k, f) # fs) =
     replicate k (CHR '' '') @ column t qualified f @ '','' @ columnList t qualified fs"

fun columnPrefix :: "Table \<Rightarrow> bool \<Rightarrow> (nat \<times> string) list \<Rightarrow> string" where
  "columnPrefix t qualified [] = []"
| "columnPrefix t qualified ((k, f) # fs) =
     replicate k (CHR '' '') @ column t qualified f @ '','' @ columnPrefix t qualified fs"

fun expected1 :: "Visitor \<Rightarrow> placeholder \<Rightarrow> string" where
  "expected1 v (Text s) = s"
| "expected1 v (Model m) = (case Models v m of Some t \<Rightarrow> Name t | None \<Rightarrow> [])"
| "expected1 v (Columns m qualified fs) =
     (case Models v m of Some t \<Rightarrow> columnList t qualified fs | None \<Rightarrow> [])"

definition expected :: "Visitor \<Rightarrow> placeholder list \<Rightarrow> string" where
  "expected v ps = concat (map (expected1 v) ps)"

text \<open>
  The names a template may use: ASCII, a model name without \<open>}\<close>, \<open>.\<close> and \<open>:\<close>, a field
  name without \<open>,\<close>, \<open>}\<close> and space, literal text without \<open>{\<close>. A placeholder resolves
  when its model is registered and each of its fields is a field of the model's table.
\<close>

definition ascii :: "string \<Rightarrow> bool" where
  "ascii s = (\<forall>c\<in>set s. (of_char c :: nat) < 0x80)"

definition modelName :: "string \<Rightarrow> bool" where
  "modelName m = (ascii m \<and> CHR ''}'' \<notin> set m \<and> CHR ''.'' \<notin> set m \<and> CHR '':'' \<notin> set m)"

definition fieldName :: "string \<Rightarrow> bool" where
  "fieldName f = (ascii f \<and> CHR '','' \<notin> set f \<and> CHR ''}'' \<notin> set f \<and> CHR '' '' \<notin> set f)"

definition fieldsOf :: "Table \<Rightarrow> (nat \<times> string) list \<Rightarrow> bool" where
  "fieldsOf t fs = (\<forall>(k, f)\<in>set fs. fieldName f \<and> (case Fields t f of Some col \<Rightarrow> True | None \<Rightarrow> False))"

fun resolves :: "Visitor \<Rightarrow> placeholder \<Rightarrow> bool" where
  "resolves v (Text s) = (ascii s \<and> CHR ''{'' \<notin> set s)"
| "resolves v (Model m) = (modelName m \<and> (case Models v m of Some t \<Rightarrow> True | None \<Rightarrow> False))"
| "resolves v (Columns m qualified fs) =
     (modelName m \<and> fs \<noteq> [] \<and> (case Models v m of Some t \<Rightarrow> fieldsOf t fs | None \<Rightarrow> False))"

text \<open>The registry of the spec's example: model \<open>User\<close>, table \<open>users\<close>.\<close>

definition userVisitor :: Visitor where
  "userVisitor =
     \<lparr>Models = [''User'' \<mapsto> \<lparr>Name = ''users'', Fields = [''Id'' \<mapsto> ''id'', ''Name'' \<mapsto> ''name'']\<rparr>]\<rparr>"

text \<open>
  A registry with one model whose name is not in ASCII: \<open>U+00DC\<close>, in UTF-8 the bytes
  \<open>C3 9C\<close>, followed by \<open>ser\<close>.
\<close>

definition nonAsciiVisitor :: Visitor where
  "nonAsciiVisitor =
     \<lparr>Models = [[CHR 0xC3, CHR 0x9C] @ ''ser'' \<mapsto> \<lparr>Name = ''users'', Fields = [''Id'' \<mapsto> ''id'']\<rparr>]\<rparr>"

section \<open>Properties of the statement cache\<close>

lemma lookup_in_range: "lookup c typ sqlid = Inr r \<Longrightarrow> unat typ < length (cache c)"
  by (simp add: lookup_def split: if_splits)

lemma StmtById_hit:
  "lookup (cacher w) typ sqlid = Inr (Some item) \<Longrightarrow>
   StmtById hk p typ sqlid create w =
     (Inr (stmt item, None), w\<lparr>printed := Print hk True (sql item) (printed w)\<rparr>)"
  by (simp add: StmtById_def)

lemma StmtById_miss_fail:
  "lookup (cacher w) typ sqlid = Inr None \<Longrightarrow> create (db w) = (q, e1) \<Longrightarrow>
   p q e1 = ((st, Some err), e2) \<Longrightarrow>
   StmtById hk p typ sqlid create w =
     (Inr (None, Some err), w\<lparr>printed := Print hk False q (printed w), db := e2\<rparr>)"
  by (simp add: StmtById_def)

lemma StmtById_miss_ok:
  "lookup (cacher w) typ sqlid = Inr None \<Longrightarrow> create (db w) = (q, e1) \<Longrightarrow>
   p q e1 = ((st, None), e2) \<Longrightarrow>
   StmtById hk p typ sqlid create w =
     (Inr (st, None),
      w\<lparr>cacher := (cacher w)\<lparr>cache := (cache (cacher w))
                [unat typ := (cache (cacher w) ! unat typ)(sqlid \<mapsto> \<lparr>sql = q, stmt = st\<rparr>)]\<rparr>,
        printed := Print hk False q (printed w), db := e2\<rparr>)"
  by (frule lookup_in_range) (simp add: StmtById_def store_def)

lemma replicate_2: "replicate 2 x = [x, x]"
  by (simp add: numeral_2_eq_2)

lemma lookup_world0: "lookup (cacher world0) 1 5 = Inr None"
  by (simp add: world0_def lookup_def)

subsection \<open>A failed compilation\<close>

text \<open>
  C2. Let \<open>StmtById\<close> miss the cache, the builder produce \<open>q\<close> and the preparer fail on
  \<open>q\<close> with \<open>err\<close>. Then \<open>StmtById\<close> returns \<open>err\<close> with a \<open>nil\<close> statement and the cacher
  is the one it started with: nothing is stored under the key. A later \<open>StmtById\<close> for the
  same key, with any printer, preparer and builder, runs the builder again: the printer is
  told the builder's new SQL as not cached and the database state is the one left by the
  new builder and the new compilation. \<open>SetStmt\<close> compiles before it touches the cache,
  so a failed compilation returns the error and leaves the cacher as it was, for every
  SQL type.
\<close>

theorem compile_failure_not_cached:
  "(lookup (cacher (w :: ('s, 'h, 'e) world)) typ sqlid = Inr None \<and> create (db w) = (q, e1)
      \<and> p q e1 = ((st, Some err), e2) \<longrightarrow>
      StmtById hk p typ sqlid create w
        = (Inr (None, Some err), w\<lparr>printed := Print hk False q (printed w), db := e2\<rparr>)
      \<and> cacher (snd (StmtById hk p typ sqlid create w)) = cacher w
      \<and> (\<forall>hk' p' create'.
            db (snd (StmtById hk' p' typ sqlid create' (snd (StmtById hk p typ sqlid create w))))
              = snd (p' (fst (create' e2)) (snd (create' e2)))
          \<and> printed (snd (StmtById hk' p' typ sqlid create' (snd (StmtById hk p typ sqlid create w))))
              = Print hk' False (fst (create' e2)) (Print hk False q (printed w))))
   \<and> (p q' (db w) = ((st, Some err), e3) \<longrightarrow>
        SetStmt p typ sqlid q' w = (Inr (None, Some err), w\<lparr>db := e3\<rparr>)
        \<and> cacher (snd (SetStmt p typ sqlid q' w)) = cacher w)"
proof (intro conjI impI)
  assume a: "lookup (cacher w) typ sqlid = Inr None \<and> create (db w) = (q, e1)
      \<and> p q e1 = ((st, Some err), e2)"
  let ?w' = "w\<lparr>printed := Print hk False q (printed w), db := e2\<rparr>"
  from a show r: "StmtById hk p typ sqlid create w = (Inr (None, Some err), ?w')"
    by (simp add: StmtById_miss_fail)
  then show "cacher (snd (StmtById hk p typ sqlid create w)) = cacher w"
    by simp
  have miss: "lookup (cacher ?w') typ sqlid = Inr None"
    using a by simp
  show "\<forall>hk' p' create'.
            db (snd (StmtById hk' p' typ sqlid create' (snd (StmtById hk p typ sqlid create w))))
              = snd (p' (fst (create' e2)) (snd (create' e2)))
          \<and> printed (snd (StmtById hk' p' typ sqlid create' (snd (StmtById hk p typ sqlid create w))))
              = Print hk' False (fst (create' e2)) (Print hk False q (printed w))"
  proof (intro allI)
    fix hk' :: "'h SQLPrinter" and p' :: "('s, 'e) Preparer" and create' :: "'e Creator"
    obtain q2 e4 where c: "create' (db ?w') = (q2, e4)"
      by (cases "create' (db ?w')")
    obtain st2 err2 e5 where pp: "p' q2 e4 = ((st2, err2), e5)"
      by (cases "p' q2 e4") auto
    have c': "create' e2 = (q2, e4)"
      using c by simp
    show "db (snd (StmtById hk' p' typ sqlid create' (snd (StmtById hk p typ sqlid create w))))
              = snd (p' (fst (create' e2)) (snd (create' e2)))
          \<and> printed (snd (StmtById hk' p' typ sqlid create' (snd (StmtById hk p typ sqlid create w))))
              = Print hk' False (fst (create' e2)) (Print hk False q (printed w))"
      using miss c pp r c' lookup_in_range [OF miss]
      by (cases err2) (simp_all add: StmtById_def store_def)
  qed
next
  assume "p q' (db w) = ((st, Some err), e3)"
  then show "SetStmt p typ sqlid q' w = (Inr (None, Some err), w\<lparr>db := e3\<rparr>)"
    by (simp add: SetStmt_def)
  then show "cacher (snd (SetStmt p typ sqlid q' w)) = cacher w"
    by simp
qed

text \<open>
  On a fresh cacher with a preparer that always fails, the counting builder has run once
  after the first call and twice after the second, and the cacher is still empty.
\<close>

theorem compile_failure_not_cached_witness:
  "lookup (cacher world0) 1 5 = Inr None
   \<and> countingCreator ''SELECT x'' (db world0) = (''SELECT x'', 1)
   \<and> badPreparer ''SELECT x'' (1::nat) = ((None, Some (Error ''cannot prepare SELECT x'')), 1)
   \<and> fst (StmtById logPrinter badPreparer 1 5 (countingCreator ''SELECT x'') world0)
       = Inr (None, Some (Error ''cannot prepare SELECT x''))
   \<and> cacher (snd (StmtById logPrinter badPreparer 1 5 (countingCreator ''SELECT x'') world0))
       = cacher world0
   \<and> db (snd (StmtById logPrinter badPreparer 1 5 (countingCreator ''SELECT x'') world0)) = 1
   \<and> db (snd (StmtById logPrinter badPreparer 1 5 (countingCreator ''SELECT x'')
        (snd (StmtById logPrinter badPreparer 1 5 (countingCreator ''SELECT x'') world0)))) = 2
   \<and> SetStmt badPreparer 1 5 ''SELECT x'' world0
       = (Inr (None, Some (Error ''cannot prepare SELECT x'')), world0)"
proof -
  let ?c = "countingCreator ''SELECT x''"
  have hyp: "lookup (cacher world0) 1 5 = Inr None \<and> ?c (db world0) = (''SELECT x'', 1)
      \<and> badPreparer ''SELECT x'' (1::nat) = ((None, Some (Error ''cannot prepare SELECT x'')), 1)"
    using lookup_world0 by (simp add: countingCreator_def badPreparer_def world0_def)
  have hyp': "badPreparer ''SELECT x'' (db world0)
      = ((None, Some (Error ''cannot prepare SELECT x'')), 0)"
    by (simp add: badPreparer_def world0_def)
  note t = compile_failure_not_cached [of world0 1 5 ?c "''SELECT x''" 1
      badPreparer None "Error ''cannot prepare SELECT x''" 1 logPrinter "''SELECT x''" 0]
  from t hyp have
    one: "StmtById logPrinter badPreparer 1 5 ?c world0
        = (Inr (None, Some (Error ''cannot prepare SELECT x'')),
           world0\<lparr>printed := Print logPrinter False ''SELECT x'' (printed world0), db := 1\<rparr>)"
    and kept: "cacher (snd (StmtById logPrinter badPreparer 1 5 ?c world0)) = cacher world0"
    and again: "\<forall>hk' p' create'.
        db (snd (StmtById hk' p' 1 5 create' (snd (StmtById logPrinter badPreparer 1 5 ?c world0))))
          = snd (p' (fst (create' 1)) (snd (create' 1)))
      \<and> printed (snd (StmtById hk' p' 1 5 create' (snd (StmtById logPrinter badPreparer 1 5 ?c world0))))
          = Print hk' False (fst (create' 1)) (Print logPrinter False ''SELECT x'' (printed world0))"
    by blast+
  from t hyp' have
    set: "SetStmt badPreparer 1 5 ''SELECT x'' world0
        = (Inr (None, Some (Error ''cannot prepare SELECT x'')), world0\<lparr>db := 0\<rparr>)"
    by blast
  from again [rule_format, of logPrinter badPreparer ?c]
  have two: "db (snd (StmtById logPrinter badPreparer 1 5 ?c
      (snd (StmtById logPrinter badPreparer 1 5 ?c world0)))) = 2"
    by (simp add: countingCreator_def badPreparer_def)
  have "world0\<lparr>db := 0\<rparr> = world0"
    by (simp add: world0_def)
  with hyp one kept two set show ?thesis
    by simp
qed

subsection \<open>Hits\<close>

lemma repeat_hits:
  "lookup (cacher w) typ sqlid = Inr (Some item) \<Longrightarrow>
   repeatStmtById hk typ sqlid calls w =
     (replicate (length calls) (Inr (stmt item, None)),
      w\<lparr>printed := ((Print hk True (sql item)) ^^ length calls) (printed w)\<rparr>)"
proof (induction calls arbitrary: w)
  case Nil
  then show ?case by simp
next
  case (Cons pc calls)
  obtain p create where pc: "pc = (p, create)"
    by (cases pc)
  let ?w1 = "w\<lparr>printed := Print hk True (sql item) (printed w)\<rparr>"
  have "lookup (cacher ?w1) typ sqlid = Inr (Some item)"
    using Cons.prems by simp
  from Cons.IH [OF this] show ?case
    using Cons.prems by (simp add: pc StmtById_hit funpow_swap1)
qed

lemma StmtById_success_cached:
  assumes "StmtById hk p typ sqlid create w = (Inr (st, None), w1)"
  shows "\<exists>q. lookup (cacher w1) typ sqlid = Inr (Some \<lparr>sql = q, stmt = st\<rparr>)"
proof (cases "lookup (cacher w) typ sqlid")
  case (Inl pn)
  with assms show ?thesis
    by (simp add: StmtById_def)
next
  case (Inr r)
  show ?thesis
  proof (cases r)
    case (Some item)
    with Inr assms have "stmt item = st" "cacher w1 = cacher w"
      by (auto simp: StmtById_def)
    with Inr Some have "lookup (cacher w1) typ sqlid = Inr (Some \<lparr>sql = sql item, stmt = st\<rparr>)"
      by simp
    then show ?thesis ..
  next
    case None
    obtain q e1 where c: "create (db w) = (q, e1)"
      by (cases "create (db w)")
    obtain st' err e2 where pp: "p q e1 = ((st', err), e2)"
      by (cases "p q e1") auto
    from Inr None have rng: "unat typ < length (cache (cacher w))"
      by (auto dest: lookup_in_range)
    from assms Inr None c pp rng have "err = None" "st' = st"
      by (auto simp: StmtById_def store_def Let_def split: option.splits)
    with assms Inr None c pp have "lookup (cacher w1) typ sqlid = Inr (Some \<lparr>sql = q, stmt = st\<rparr>)"
      using StmtById_miss_ok [of w "typ" sqlid create q e1 p st e2 hk] rng
      by (auto simp: lookup_def)
    then show ?thesis ..
  qed
qed

text \<open>
  C5. After a call of \<open>StmtById\<close> that succeeded with the statement \<open>st\<close>, the cacher
  holds an SQL text \<open>q\<close> with \<open>st\<close> under the key, and every further call for the key,
  however many and with whatever preparer and builder, returns \<open>st\<close> with no error. These
  calls are hits: the printer is told \<open>q\<close> as cached each time, and neither the cacher nor
  the state the builder and the preparer act on changes, so no builder runs after the
  first success.
\<close>

theorem StmtById_builds_once:
  assumes "StmtById hk p typ sqlid create w = (Inr (st, None), w1)"
  shows "\<exists>q. GetStmt typ sqlid (cacher w1) = Inr (q, st)
          \<and> (\<forall>calls.
                fst (repeatStmtById hk typ sqlid calls w1)
                  = replicate (length calls) (Inr (st, None))
              \<and> cacher (snd (repeatStmtById hk typ sqlid calls w1)) = cacher w1
              \<and> db (snd (repeatStmtById hk typ sqlid calls w1)) = db w1
              \<and> printed (snd (repeatStmtById hk typ sqlid calls w1))
                  = ((Print hk True q) ^^ length calls) (printed w1))"
proof -
  from StmtById_success_cached [OF assms]
  obtain q where l: "lookup (cacher w1) typ sqlid = Inr (Some \<lparr>sql = q, stmt = st\<rparr>)" ..
  have "GetStmt typ sqlid (cacher w1) = Inr (q, st)"
    using l by (simp add: GetStmt_def)
  moreover have "\<forall>calls.
                fst (repeatStmtById hk typ sqlid calls w1)
                  = replicate (length calls) (Inr (st, None))
              \<and> cacher (snd (repeatStmtById hk typ sqlid calls w1)) = cacher w1
              \<and> db (snd (repeatStmtById hk typ sqlid calls w1)) = db w1
              \<and> printed (snd (repeatStmtById hk typ sqlid calls w1))
                  = ((Print hk True q) ^^ length calls) (printed w1)"
    using repeat_hits [OF l] by simp
  ultimately show ?thesis
    by blast
qed

lemma first_call:
  "StmtById logPrinter goodPreparer 1 5 (countingCreator ''SELECT 1'') world0
    = (Inr (Some ''stmt of SELECT 1'', None),
       \<lparr>cacher = \<lparr>cache = [Map.empty, [5 \<mapsto> \<lparr>sql = ''SELECT 1'', stmt = Some ''stmt of SELECT 1''\<rparr>]]\<rparr>,
        printed = [(''Cached: %t, SQL: %s'' @ [CHR 0x0A], [BoolArg False, StringArg ''SELECT 1''])],
        db = 1\<rparr>)"
  by (simp add: StmtById_def world0_def lookup_def store_def countingCreator_def
      goodPreparer_def logPrinter_def Print_def)

text \<open>
  The first call on a fresh cacher builds (the counter goes to 1); two more calls, one of
  them with a preparer that would fail, return the same statement and leave the counter.
\<close>

theorem StmtById_builds_once_witness:
  "fst (StmtById logPrinter goodPreparer 1 5 (countingCreator ''SELECT 1'') world0)
     = Inr (Some ''stmt of SELECT 1'', None)
   \<and> db (snd (StmtById logPrinter goodPreparer 1 5 (countingCreator ''SELECT 1'') world0)) = 1
   \<and> fst (repeatStmtById logPrinter 1 5
        [(badPreparer, countingCreator ''SELECT 2''), (goodPreparer, countingCreator ''SELECT 3'')]
        (snd (StmtById logPrinter goodPreparer 1 5 (countingCreator ''SELECT 1'') world0)))
     = [Inr (Some ''stmt of SELECT 1'', None), Inr (Some ''stmt of SELECT 1'', None)]
   \<and> db (snd (repeatStmtById logPrinter 1 5
        [(badPreparer, countingCreator ''SELECT 2''), (goodPreparer, countingCreator ''SELECT 3'')]
        (snd (StmtById logPrinter goodPreparer 1 5 (countingCreator ''SELECT 1'') world0)))) = 1"
proof -
  from StmtById_builds_once [OF first_call]
  obtain q where
    "\<forall>calls.
       fst (repeatStmtById logPrinter 1 5 calls
         (snd (StmtById logPrinter goodPreparer 1 5 (countingCreator ''SELECT 1'') world0)))
         = replicate (length calls) (Inr (Some ''stmt of SELECT 1'', None))
     \<and> db (snd (repeatStmtById logPrinter 1 5 calls
         (snd (StmtById logPrinter goodPreparer 1 5 (countingCreator ''SELECT 1'') world0))))
         = db (snd (StmtById logPrinter goodPreparer 1 5 (countingCreator ''SELECT 1'') world0))"
    by (auto simp: first_call)
  from this [rule_format, of "[(badPreparer, countingCreator ''SELECT 2''),
      (goodPreparer, countingCreator ''SELECT 3'')]"]
  show ?thesis
    by (simp add: first_call)
qed

subsection \<open>The diagnostic printer\<close>

text \<open>
  C6, as the code has it. \<open>SetStmt\<close> does not mention \<open>sqlPrinter\<close>: after a call of
  \<open>SetStmt\<close> that prepares and stores its SQL, a printer that keeps every call it receives
  has received none.
\<close>

theorem SetStmt_prints_nothing:
  "fst (SetStmt goodPreparer 1 5 ''SELECT 1'' world0) = Inr (Some ''stmt of SELECT 1'', None)
   \<and> printed (snd (SetStmt goodPreparer 1 5 ''SELECT 1'' world0)) = []
   \<and> length (printed (snd (SetStmt goodPreparer 1 5 ''SELECT 1'' world0))) \<noteq> 1"
  by (simp add: SetStmt_def goodPreparer_def world0_def store_def)

text \<open>
  C6, amended. Every call of \<open>StmtById\<close> for an SQL type of the cacher calls the printer
  exactly once: the printer's state afterwards is one \<open>Print\<close> applied to its state
  before, with the flag telling whether the SQL came from the cache and with the SQL text
  (the cached one on a hit, the builder's on a miss, also when the compilation then
  fails). What \<open>StmtById\<close> returns, the cacher and the database state afterwards are the
  same for every printer and every state of the printer. \<open>SetStmt\<close> leaves the printer's
  state alone: it never calls the printer.
\<close>

theorem hook_called_once_by_StmtById:
  "(\<forall>r. lookup (cacher w) typ sqlid = Inr r \<longrightarrow>
      printed (snd (StmtById hk p typ sqlid create w))
        = Print hk (r \<noteq> None) (case r of Some item \<Rightarrow> sql item | None \<Rightarrow> fst (create (db w)))
            (printed w))
   \<and> fst (StmtById hk' p typ sqlid create (w\<lparr>printed := h'\<rparr>)) = fst (StmtById hk p typ sqlid create w)
   \<and> cacher (snd (StmtById hk' p typ sqlid create (w\<lparr>printed := h'\<rparr>)))
       = cacher (snd (StmtById hk p typ sqlid create w))
   \<and> db (snd (StmtById hk' p typ sqlid create (w\<lparr>printed := h'\<rparr>)))
       = db (snd (StmtById hk p typ sqlid create w))
   \<and> printed (snd (SetStmt p typ sqlid q w)) = printed w"
  by (auto simp: StmtById_def SetStmt_def Let_def store_def
      split: sum.splits option.splits prod.splits if_splits)

theorem hook_called_once_by_StmtById_witness:
  "lookup (cacher world0) 1 5 = Inr None
   \<and> printed (snd (StmtById logPrinter goodPreparer 1 5 (countingCreator ''SELECT 1'') world0))
       = [(''Cached: %t, SQL: %s'' @ [CHR 0x0A], [BoolArg False, StringArg ''SELECT 1''])]
   \<and> length (printed (snd (StmtById logPrinter goodPreparer 1 5 (countingCreator ''SELECT 1'') world0)))
       = length (printed world0) + 1"
  using hook_called_once_by_StmtById [of world0 1 5 logPrinter goodPreparer
      "countingCreator ''SELECT 1''" logPrinter "[]" "''SELECT 1''"]
    lookup_world0
  by (simp add: Print_def logPrinter_def countingCreator_def world0_def)

subsection \<open>Preparing a cached statement again\<close>

text \<open>
  C8. \<open>PrepareStmt\<close> leaves the cacher as it was, whatever the SQL type and the id (an SQL
  type out of range panics before anything is done): the SQL text and the statement kept
  under the key stay, and the newly prepared statement only goes to the caller, with the
  cached SQL text and the preparer's error. When the SQL type's table has no entry for
  the id, \<open>PrepareStmt\<close> returns the empty string, a \<open>nil\<close> statement and a \<open>nil\<close> error,
  and nothing changes.
\<close>

theorem PrepareStmt_frame:
  "cacher (snd (PrepareStmt p typ sqlid w)) = cacher w
   \<and> printed (snd (PrepareStmt p typ sqlid w)) = printed w
   \<and> (lookup (cacher w) typ sqlid = Inr None \<longrightarrow>
        PrepareStmt p typ sqlid w = (Inr ('''', None, None), w))
   \<and> (\<forall>item. lookup (cacher w) typ sqlid = Inr (Some item) \<longrightarrow>
        fst (PrepareStmt p typ sqlid w) = Inr (sql item, fst (p (sql item) (db w)))
        \<and> GetStmt typ sqlid (cacher (snd (PrepareStmt p typ sqlid w))) = Inr (sql item, stmt item))"
  by (auto simp: PrepareStmt_def GetStmt_def split: sum.splits option.splits prod.splits)

theorem PrepareStmt_frame_witness:
  "lookup (cacher world0) 1 5 = Inr None
   \<and> PrepareStmt goodPreparer 1 5 world0 = (Inr ('''', None, None), world0)
   \<and> lookup (cacher world1) 1 5 = Inr (Some \<lparr>sql = ''SELECT 1'', stmt = Some ''old''\<rparr>)
   \<and> fst (PrepareStmt goodPreparer 1 5 world1) = Inr (''SELECT 1'', Some ''stmt of SELECT 1'', None)
   \<and> GetStmt 1 5 (cacher (snd (PrepareStmt goodPreparer 1 5 world1))) = Inr (''SELECT 1'', Some ''old'')"
  using PrepareStmt_frame [of goodPreparer 1 5 world0] PrepareStmt_frame [of goodPreparer 1 5 world1]
    lookup_world0
  by (simp add: world1_def lookup_def goodPreparer_def GetStmt_def)

subsection \<open>Resizing\<close>

lemma NewCacher_2: "2 \<le> maxLen \<Longrightarrow> NewCacher maxLen 2 = Inr (cacher world0)"
  by (simp add: NewCacher_def makeLen_def world0_def replicate_2)

lemma ExtendType_same:
  "unat typ = length (cache c) \<Longrightarrow> ExtendType maxLen typ c = Inr (typ - 1, c)"
  by (simp add: ExtendType_def)

lemma ExtendType_shrink:
  "unat typ < length (cache c) \<Longrightarrow>
   ExtendType maxLen typ c = Inr (typ - 1, c\<lparr>cache := take (unat typ) (cache c)\<rparr>)"
  by (simp add: ExtendType_def)

lemma ExtendType_grow:
  "length (cache c) < unat typ \<Longrightarrow>
   ExtendType maxLen typ c =
     (if makeLen maxLen typ
      then Inr (typ - 1, c\<lparr>cache := cache c @ replicate (unat typ - length (cache c)) Map.empty\<rparr>)
      else Inl MakeSliceLenOutOfRange)"
  by (simp add: ExtendType_def)

lemma ExtendType_length:
  "ExtendType maxLen typ c = Inr (r, c') \<Longrightarrow> r = typ - 1 \<and> length (cache c') = unat typ"
  by (auto simp: ExtendType_def Let_def split: if_splits)

lemma ExtendType_lookup:
  "ExtendType maxLen typ c = Inr (r, c') \<Longrightarrow> unat t < unat typ \<Longrightarrow> unat t < length (cache c) \<Longrightarrow>
   lookup c' t sqlid = lookup c t sqlid"
  by (auto simp: ExtendType_def Let_def lookup_def nth_append split: if_splits)

text \<open>
  C7. For a cacher with \<open>n\<close> SQL types, \<open>ExtendType n\<close> returns the cacher unchanged;
  \<open>ExtendType (n + 1)\<close> keeps the \<open>n\<close> tables as they are and adds exactly one empty table
  after them (it is the one call of the three that allocates: where \<open>make\<close> cannot
  allocate \<open>n + 1\<close> tables it panics and nothing changes); \<open>ExtendType m\<close> with \<open>m < n\<close>
  keeps the first \<open>m\<close> tables as they are and drops the others. Whenever \<open>ExtendType\<close>
  returns, an entry under an SQL type below both the old and the new count is found as
  before.
\<close>

theorem ExtendType_preserves_entries:
  "(unat typ = length (cache c) \<longrightarrow> ExtendType maxLen typ c = Inr (typ - 1, c))
 \<and> (unat typ = Suc (length (cache c)) \<longrightarrow>
      ExtendType maxLen typ c =
        (if makeLen maxLen typ then Inr (typ - 1, c\<lparr>cache := cache c @ [Map.empty]\<rparr>)
         else Inl MakeSliceLenOutOfRange))
 \<and> (unat typ < length (cache c) \<longrightarrow>
      ExtendType maxLen typ c = Inr (typ - 1, c\<lparr>cache := take (unat typ) (cache c)\<rparr>))
 \<and> (\<forall>r c' t sqlid.
      ExtendType maxLen typ c = Inr (r, c') \<and> unat t < unat typ \<and> unat t < length (cache c) \<longrightarrow>
        lookup c' t sqlid = lookup c t sqlid)"
proof (intro conjI impI)
  show "\<forall>r c' t sqlid.
      ExtendType maxLen typ c = Inr (r, c') \<and> unat t < unat typ \<and> unat t < length (cache c) \<longrightarrow>
        lookup c' t sqlid = lookup c t sqlid"
    by (blast intro: ExtendType_lookup)
next
  assume "unat typ = length (cache c)"
  then show "ExtendType maxLen typ c = Inr (typ - 1, c)"
    by (rule ExtendType_same)
next
  assume "unat typ = Suc (length (cache c))"
  then show "ExtendType maxLen typ c =
        (if makeLen maxLen typ then Inr (typ - 1, c\<lparr>cache := cache c @ [Map.empty]\<rparr>)
         else Inl MakeSliceLenOutOfRange)"
    by (simp add: ExtendType_grow)
next
  assume "unat typ < length (cache c)"
  then show "ExtendType maxLen typ c = Inr (typ - 1, c\<lparr>cache := take (unat typ) (cache c)\<rparr>)"
    by (rule ExtendType_shrink)
qed

text \<open>
  On a cacher of two SQL types with an entry under the second, on a platform where
  \<open>make\<close> allocates up to \<open>2 ^ 45\<close> tables.
\<close>

theorem ExtendType_preserves_entries_witness:
  "unat (2::uint) = length (cache (cacher world1))
   \<and> ExtendType (2 ^ 45) 2 (cacher world1) = Inr (1, cacher world1)
   \<and> unat (3::uint) = Suc (length (cache (cacher world1)))
   \<and> makeLen (2 ^ 45) 3
   \<and> ExtendType (2 ^ 45) 3 (cacher world1)
       = Inr (2, (cacher world1)\<lparr>cache := cache (cacher world1) @ [Map.empty]\<rparr>)
   \<and> unat (1::uint) < length (cache (cacher world1))
   \<and> ExtendType (2 ^ 45) 1 (cacher world1) = Inr (0, \<lparr>cache = [Map.empty]\<rparr>)
   \<and> unat (1::uint) < unat (3::uint)
   \<and> lookup ((cacher world1)\<lparr>cache := cache (cacher world1) @ [Map.empty]\<rparr>) 1 5
       = Inr (Some \<lparr>sql = ''SELECT 1'', stmt = Some ''old''\<rparr>)"
proof -
  have l: "length (cache (cacher world1)) = 2"
    by (simp add: world1_def)
  have h2: "unat (2::uint) = length (cache (cacher world1))"
    and h3: "unat (3::uint) = Suc (length (cache (cacher world1)))"
    and h1: "unat (1::uint) < length (cache (cacher world1))"
    by (simp_all add: l)
  have m: "makeLen (2 ^ 45) 3"
    by (simp add: makeLen_def)
  have lk: "lookup (cacher world1) 1 5 = Inr (Some \<lparr>sql = ''SELECT 1'', stmt = Some ''old''\<rparr>)"
    by (simp add: world1_def lookup_def)
  note t2 = ExtendType_preserves_entries [of 2 "cacher world1" "2 ^ 45"]
  note t3 = ExtendType_preserves_entries [of 3 "cacher world1" "2 ^ 45"]
  note t1 = ExtendType_preserves_entries [of 1 "cacher world1" "2 ^ 45"]
  from t2 h2 have x2: "ExtendType (2 ^ 45) 2 (cacher world1) = Inr (2 - 1, cacher world1)"
    by blast
  from t3 h3 m have x3: "ExtendType (2 ^ 45) 3 (cacher world1)
       = Inr (3 - 1, (cacher world1)\<lparr>cache := cache (cacher world1) @ [Map.empty]\<rparr>)"
    by simp
  from t1 h1 have x1: "ExtendType (2 ^ 45) 1 (cacher world1)
       = Inr (1 - 1, (cacher world1)\<lparr>cache := take (unat (1::uint)) (cache (cacher world1))\<rparr>)"
    by blast
  have u: "unat (1::uint) < unat (3::uint)"
    by simp
  from t3 [THEN conjunct2, THEN conjunct2, THEN conjunct2, rule_format, of "3 - 1"
      "(cacher world1)\<lparr>cache := cache (cacher world1) @ [Map.empty]\<rparr>" 1 5] x3 u h1 lk
  have x4: "lookup ((cacher world1)\<lparr>cache := cache (cacher world1) @ [Map.empty]\<rparr>) 1 5
       = Inr (Some \<lparr>sql = ''SELECT 1'', stmt = Some ''old''\<rparr>)"
    by simp
  have x1': "ExtendType (2 ^ 45) 1 (cacher world1) = Inr (0, \<lparr>cache = [Map.empty]\<rparr>)"
    using x1 by (simp add: world1_def)
  from h2 x2 h3 m x3 h1 x1' u x4 show ?thesis
    by simp
qed

text \<open>
  C10, as the code has it. \<open>typ\<close> is a \<open>uint\<close>, and growing allocates \<open>typ\<close> tables with
  \<open>make\<close>: for \<open>typ = 2 ^ 63\<close>, which is at least 1 and does not fit an \<open>int\<close>, the call
  panics on every platform and returns nothing.
\<close>

theorem ExtendType_panics_when_make_fails:
  "(1::uint) \<le> 2 ^ 63
   \<and> ExtendType (2 ^ 45) (2 ^ 63) (cacher world1) = Inl MakeSliceLenOutOfRange"
proof -
  have u: "unat (2 ^ 63 :: uint) = 2 ^ 63"
    by simp
  have "(1::uint) \<le> 2 ^ 63"
    by (simp add: word_le_nat_alt u)
  moreover have "ExtendType (2 ^ 45) (2 ^ 63) (cacher world1) = Inl MakeSliceLenOutOfRange"
    by (simp add: ExtendType_def makeLen_def world1_def u)
  ultimately show ?thesis
    by simp
qed

text \<open>
  C10, amended. For every \<open>typ \<ge> 1\<close> that is at most the current count or a length
  \<open>make\<close> can allocate, \<open>ExtendType typ\<close> returns \<open>typ - 1\<close>, the index of the last SQL
  type after the resize, and not the new count \<open>Types\<close>, which is \<open>typ\<close>; this holds when
  the call grows the cacher and when it shrinks it.
\<close>

theorem ExtendType_returns_last_index:
  assumes "1 \<le> typ" and "unat typ \<le> length (cache c) \<or> makeLen maxLen typ"
  shows "\<exists>c'. ExtendType maxLen typ c = Inr (typ - 1, c')
           \<and> unat (typ - 1) = unat typ - 1
           \<and> Types c' = typ
           \<and> typ - 1 \<noteq> Types c'"
proof -
  have "\<exists>r c'. ExtendType maxLen typ c = Inr (r, c')"
    using assms(2) by (cases "length (cache c) < unat typ") (simp_all add: ExtendType_def)
  then obtain r c' where e: "ExtendType maxLen typ c = Inr (r, c')"
    by blast
  from ExtendType_length [OF e] have r: "r = typ - 1" and n: "length (cache c') = unat typ"
    by simp_all
  have t: "Types c' = typ"
    by (simp add: Types_def n)
  have u: "unat (typ - 1) = unat typ - 1"
    using assms(1) by (simp add: unat_sub)
  have "typ - 1 \<noteq> typ"
    by simp
  with e r t u show ?thesis
    by simp
qed

theorem ExtendType_returns_last_index_witness:
  "(1::uint) \<le> 3 \<and> makeLen (2 ^ 45) 3
   \<and> (\<exists>c'. ExtendType (2 ^ 45) 3 (cacher world1) = Inr (2, c') \<and> Types c' = 3)
   \<and> (1::uint) \<le> 1 \<and> unat (1::uint) \<le> length (cache (cacher world1))
   \<and> (\<exists>c'. ExtendType (2 ^ 45) 1 (cacher world1) = Inr (0, c') \<and> Types c' = 1)"
proof -
  have m: "makeLen (2 ^ 45) 3"
    by (simp add: makeLen_def)
  have s: "unat (1::uint) \<le> length (cache (cacher world1))"
    by (simp add: world1_def)
  have "(1::uint) \<le> 3"
    by simp
  from ExtendType_returns_last_index [OF this, of "cacher world1" "2 ^ 45"] m
  have x3: "\<exists>c'. ExtendType (2 ^ 45) 3 (cacher world1) = Inr (2, c') \<and> Types c' = 3"
    by auto
  have "(1::uint) \<le> 1"
    by simp
  from ExtendType_returns_last_index [OF this, of "cacher world1" "2 ^ 45"] s
  have x1: "\<exists>c'. ExtendType (2 ^ 45) 1 (cacher world1) = Inr (0, c') \<and> Types c' = 1"
    by auto
  from m s x3 x1 show ?thesis
    by simp
qed

section \<open>Properties of the generated \<open>Vals\<close> and \<open>Ptrs\<close>\<close>

lemma fieldBit_test: "(flds AND fieldBit i \<noteq> 0) = bit flds i"
  by (simp add: fieldBit_def and_exp_eq_0_iff_not_bit)

lemma FieldsAll_bit: "n \<le> 64 \<Longrightarrow> bit (FieldsAll n) i = (i < n)"
  unfolding FieldsAll_def
  by (auto simp add: bit_mask_iff simp flip: mask_eq_exp_minus_1)

lemma selected_all: "n \<le> 64 \<Longrightarrow> selected n (FieldsAll n) = [0..<n]"
  by (simp add: selected_def FieldsAll_bit)

lemma selected_zero: "selected n 0 = []"
  by (simp add: selected_def)

lemma selected_sorted: "sorted_wrt (<) (selected n flds)"
  by (simp add: selected_def sorted_wrt_filter)

lemma selected_set: "set (selected n flds) = {i. i < n \<and> bit flds i}"
  by (auto simp: selected_def)

lemma writeAll_eq:
  "index + length xs \<le> length vals \<Longrightarrow>
   writeAll xs index vals = Inr (take index vals @ xs @ drop (index + length xs) vals)"
proof (induction xs arbitrary: index vals)
  case Nil
  then show ?case by simp
next
  case (Cons x xs)
  have "index < length vals"
    using Cons.prems by simp
  moreover have "Suc index + length xs \<le> length (vals[index := x])"
    using Cons.prems by simp
  note Cons.IH [OF this]
  ultimately show ?case
    by (simp add: assign_def take_Suc_conv_app_nth upd_conv_take_nth_drop add.commute)
qed

lemma writeAll_panics:
  "length vals < index + length xs \<Longrightarrow> index \<le> length vals \<Longrightarrow>
   writeAll xs index vals = Inl IndexOutOfRange"
proof (induction xs arbitrary: index vals)
  case Nil
  then show ?case by simp
next
  case (Cons x xs)
  then show ?case by (auto simp: assign_def)
qed

lemma writeAll_from_0:
  "writeAll xs 0 vals =
     (if length xs \<le> length vals then Inr (xs @ drop (length xs) vals) else Inl IndexOutOfRange)"
  using writeAll_eq [of 0 xs vals] writeAll_panics [of vals 0 xs]
  by auto

lemma writeSelected_as_writeAll:
  "writeSelected flds xs i index vals
     = writeAll (map fst (filter (\<lambda>(x, j). bit flds j) (zip xs [i..<i + length xs]))) index vals"
proof (induction xs arbitrary: i index vals)
  case Nil
  then show ?case by simp
next
  case (Cons x xs)
  have z: "zip (x # xs) [i..<i + length (x # xs)] = (x, i) # zip xs [Suc i..<Suc i + length xs]"
    by (subst upt_rec) simp
  show ?case
    unfolding z by (simp add: fieldBit_test Cons.IH split: sum.splits)
qed

lemma zip_upt_filter:
  "map fst (filter (\<lambda>(x, j). P j) (zip xs [0..<length xs]))
     = map (\<lambda>j. xs ! j) (filter P [0..<length xs])"
proof -
  have "zip xs [0..<length xs] = zip (map ((!) xs) [0..<length xs]) [0..<length xs]"
    by (simp add: map_nth)
  also have "\<dots> = map (\<lambda>j. (xs ! j, j)) [0..<length xs]"
    by (simp add: zip_map1 zip_same_conv_map)
  finally show ?thesis
    by (simp add: filter_map comp_def)
qed

lemma writeSelected_from_0:
  "writeSelected flds xs 0 0 vals =
     (if length (selected (length xs) flds) \<le> length vals
      then Inr (map (\<lambda>i. xs ! i) (selected (length xs) flds)
                @ drop (length (selected (length xs) flds)) vals)
      else Inl IndexOutOfRange)"
  using zip_upt_filter [of "bit flds" xs]
  by (simp add: writeSelected_as_writeAll writeAll_from_0 selected_def)

lemma Vals_eq:
  assumes "length self \<le> 64"
  shows "Vals self flds vals =
     (if length (selected (length self) flds) \<le> length vals
      then Inr (map (\<lambda>i. self ! i) (selected (length self) flds)
                @ drop (length (selected (length self) flds)) vals)
      else Inl IndexOutOfRange)"
proof -
  consider "flds = 0" | "flds \<noteq> 0" "flds = FieldsAll (length self)"
    | "flds \<noteq> 0" "flds \<noteq> FieldsAll (length self)"
    by blast
  then show ?thesis
  proof cases
    case 1
    then show ?thesis by (simp add: Vals_def selected_zero)
  next
    case 2
    then show ?thesis
      using assms by (simp add: Vals_def selected_all writeAll_from_0 map_nth)
  next
    case 3
    then show ?thesis
      by (simp add: Vals_def writeSelected_from_0)
  qed
qed

lemma Ptrs_eq:
  assumes "FieldEnd \<le> 64"
  shows "Ptrs FieldEnd self flds ptrs =
     (if length (selected FieldEnd flds) \<le> length ptrs
      then Inr (map (FieldPtr self) (selected FieldEnd flds)
                @ drop (length (selected FieldEnd flds)) ptrs)
      else Inl IndexOutOfRange)"
proof -
  have m: "map (\<lambda>i. map (FieldPtr self) [0..<FieldEnd] ! i) (selected FieldEnd flds)
      = map (FieldPtr self) (selected FieldEnd flds)"
    by (auto simp: selected_def)
  consider "flds = 0" | "flds \<noteq> 0" "flds = FieldsAll FieldEnd"
    | "flds \<noteq> 0" "flds \<noteq> FieldsAll FieldEnd"
    by blast
  then show ?thesis
  proof cases
    case 1
    then show ?thesis by (simp add: Ptrs_def selected_zero)
  next
    case 2
    then show ?thesis
      using assms by (simp add: Ptrs_def selected_all writeAll_from_0)
  next
    case 3
    then show ?thesis
      using m by (simp add: Ptrs_def writeSelected_from_0)
  qed
qed

text \<open>
  C3. For a model with at most 64 fields (more do not compile), every mask and every row:
  the columns the mask selects are its set bits below the number of fields, in ascending
  order. \<open>Vals\<close> writes the row's values of these columns, in this order, to the indices
  \<open>0, 1, 2, \<dots>\<close> of the destination and leaves the rest of it, whichever branch of the
  method runs; \<open>Ptrs\<close> does the same with the addresses of the fields. (A destination
  shorter than the number of selected columns makes the method panic.) What is written
  where is thus a function of the mask alone, and the mask 0 writes nothing.
\<close>

theorem Vals_Ptrs_declared_order:
  assumes "length self \<le> 64" and "FieldEnd \<le> 64"
  shows "sorted_wrt (<) (selected FieldEnd flds)
       \<and> set (selected FieldEnd flds) = {i. i < FieldEnd \<and> bit flds i}
       \<and> Vals self flds vals =
           (if length (selected (length self) flds) \<le> length vals
            then Inr (map (\<lambda>i. self ! i) (selected (length self) flds)
                      @ drop (length (selected (length self) flds)) vals)
            else Inl IndexOutOfRange)
       \<and> Ptrs FieldEnd r flds ptrs =
           (if length (selected FieldEnd flds) \<le> length ptrs
            then Inr (map (FieldPtr r) (selected FieldEnd flds)
                      @ drop (length (selected FieldEnd flds)) ptrs)
            else Inl IndexOutOfRange)
       \<and> Vals self 0 vals = Inr vals
       \<and> Ptrs FieldEnd r 0 ptrs = Inr ptrs"
proof (intro conjI)
  show "sorted_wrt (<) (selected FieldEnd flds)"
    by (rule selected_sorted)
  show "set (selected FieldEnd flds) = {i. i < FieldEnd \<and> bit flds i}"
    by (rule selected_set)
  show "Vals self flds vals =
           (if length (selected (length self) flds) \<le> length vals
            then Inr (map (\<lambda>i. self ! i) (selected (length self) flds)
                      @ drop (length (selected (length self) flds)) vals)
            else Inl IndexOutOfRange)"
    by (rule Vals_eq [OF assms(1)])
  show "Ptrs FieldEnd r flds ptrs =
           (if length (selected FieldEnd flds) \<le> length ptrs
            then Inr (map (FieldPtr r) (selected FieldEnd flds)
                      @ drop (length (selected FieldEnd flds)) ptrs)
            else Inl IndexOutOfRange)"
    by (rule Ptrs_eq [OF assms(2)])
  show "Vals self 0 vals = Inr vals"
    by (simp add: Vals_def)
  show "Ptrs FieldEnd r 0 ptrs = Inr ptrs"
    by (simp add: Ptrs_def)
qed

text \<open>
  A model with three fields and the mask 5 (the first and the third field): the two
  values go to the indices 0 and 1, the two addresses likewise.
\<close>

theorem Vals_Ptrs_declared_order_witness:
  "length [''a'', ''b'', ''c''] \<le> 64 \<and> (3::nat) \<le> 64
   \<and> selected 3 5 = [0, 2]
   \<and> Vals [''a'', ''b'', ''c''] 5 [''x'', ''y'', ''z''] = Inr [''a'', ''c'', ''z'']
   \<and> Ptrs 3 ''row'' 5 [FieldPtr ''other'' 7, FieldPtr ''other'' 8]
       = Inr [FieldPtr ''row'' 0, FieldPtr ''row'' 2]
   \<and> Vals [''a'', ''b'', ''c''] 5 [''x''] = Inl IndexOutOfRange"
proof -
  have l: "length [''a'', ''b'', ''c''] \<le> 64" and n: "(3::nat) \<le> 64"
    by simp_all
  have s: "selected 3 5 = [0, 2]"
    by (simp add: selected_def upt_rec)
  have s': "selected (length [''a'', ''b'', ''c'']) 5 = [0, 2]"
    using s by (simp add: numeral_3_eq_3)
  note t1 = Vals_Ptrs_declared_order [OF l n, of 5 "[''x'', ''y'', ''z'']" "''row''"
      "[FieldPtr ''other'' 7, FieldPtr ''other'' 8]", unfolded s s']
  note t2 = Vals_Ptrs_declared_order [OF l n, of 5 "[''x'']" "''row''" "[]", unfolded s s']
  from t1 have "Vals [''a'', ''b'', ''c''] 5 [''x'', ''y'', ''z''] = Inr [''a'', ''c'', ''z'']"
    and "Ptrs 3 ''row'' 5 [FieldPtr ''other'' 7, FieldPtr ''other'' 8]
       = Inr [FieldPtr ''row'' 0, FieldPtr ''row'' 2]"
    by simp_all
  moreover from t2 have "Vals [''a'', ''b'', ''c''] 5 [''x''] = Inl IndexOutOfRange"
    by simp
  ultimately show ?thesis
    using s by simp
qed

section \<open>Properties of the placeholder resolution\<close>

subsection \<open>The loop on a well-formed template\<close>

lemma runeWidth_ascii: "(of_char c :: nat) < 0x80 \<Longrightarrow> runeWidth (c # cs) = 1"
  by (simp add: first_def)

lemma rangeBytes_ascii_append: "ascii xs \<Longrightarrow> rangeBytes (xs @ ys) = xs @ rangeBytes ys"
  by (induction xs) (simp_all add: ascii_def runeWidth_ascii del: runeWidth.simps)

lemma rangeBytes_ascii: "ascii xs \<Longrightarrow> rangeBytes xs = xs"
  using rangeBytes_ascii_append [of xs "[]"] by simp

lemma ascii_append [simp]: "ascii (xs @ ys) = (ascii xs \<and> ascii ys)"
  by (auto simp: ascii_def)

lemma ascii_Nil [simp]: "ascii []"
  by (simp add: ascii_def)

lemma ascii_Cons: "ascii (c # cs) = ((of_char c :: nat) < 0x80 \<and> ascii cs)"
  by (simp add: ascii_def)

lemma ascii_replicate_space [simp]: "ascii (replicate k (CHR '' ''))"
  by (simp add: ascii_def)

lemma loop_append:
  "loop v l (xs @ ys) =
     (case loop v l xs of Next l' \<Rightarrow> loop v l' ys | Return e \<Rightarrow> Return e | Panic pn \<Rightarrow> Panic pn)"
  by (induction xs arbitrary: l) (simp_all split: flow.splits)

lemma loop_Next_append: "loop v l xs = Next l' \<Longrightarrow> loop v l (xs @ ys) = loop v l' ys"
  by (simp add: loop_append)

lemma loop_Return_append: "loop v l xs = Return e \<Longrightarrow> loop v l (xs @ ys) = Return e"
  by (simp add: loop_append)

lemma loop_text:
  "state l = INIT \<Longrightarrow> CHR ''{'' \<notin> set s \<Longrightarrow> loop v l s = Next (l\<lparr>sqlbuf := sqlbuf l @ s\<rparr>)"
  by (induction s arbitrary: l) (auto simp: body_def)

lemma loop_model_name:
  "state l = PARSING_MODEL \<Longrightarrow> CHR ''}'' \<notin> set m \<Longrightarrow> CHR ''.'' \<notin> set m \<Longrightarrow> CHR '':'' \<notin> set m \<Longrightarrow>
   loop v l m = Next (l\<lparr>modelbuf := modelbuf l @ m\<rparr>)"
  by (induction m arbitrary: l) (auto simp: body_def)

lemma loop_field_name:
  "state l = PARSING_FIELD \<Longrightarrow> CHR '','' \<notin> set f \<Longrightarrow> CHR ''}'' \<notin> set f \<Longrightarrow> CHR '' '' \<notin> set f \<Longrightarrow>
   loop v l f = Next (l\<lparr>fieldbuf := fieldbuf l @ f\<rparr>)"
  by (induction f arbitrary: l) (auto simp: body_def)

lemma loop_spaces:
  "state l = PARSING_FIELD \<Longrightarrow>
   loop v l (replicate k (CHR '' '')) = Next (l\<lparr>sqlbuf := sqlbuf l @ replicate k (CHR '' '')\<rparr>)"
  by (induction k arbitrary: l) (auto simp: body_def replicate_app_Cons_same)

lemma loop_one_field:
  assumes "state l = PARSING_FIELD" "fieldbuf l = []" "table l = Some t"
    and "fieldName f" "Fields t f = Some col"
  shows "loop v l (replicate k (CHR '' '') @ f @ '','')
           = Next (l\<lparr>sqlbuf := sqlbuf l @ replicate k (CHR '' '') @ column t (withModel l) f @ '',''\<rparr>)"
    and "loop v l (replicate k (CHR '' '') @ f @ ''}'')
           = Next (l\<lparr>sqlbuf := sqlbuf l @ replicate k (CHR '' '') @ column t (withModel l) f, state := INIT\<rparr>)"
proof -
  let ?l1 = "l\<lparr>sqlbuf := sqlbuf l @ replicate k (CHR '' '')\<rparr>"
  let ?l2 = "?l1\<lparr>fieldbuf := f\<rparr>"
  have 1: "loop v l (replicate k (CHR '' '')) = Next ?l1"
    using assms(1) by (rule loop_spaces)
  have 2: "loop v ?l1 f = Next ?l2"
    using assms loop_field_name [of ?l1 f v] by (simp add: fieldName_def)
  have e: "l\<lparr>fieldbuf := []\<rparr> = l"
    using assms(2) by simp
  have 3: "body v ?l2 (CHR '','')
      = Next (l\<lparr>sqlbuf := sqlbuf l @ replicate k (CHR '' '') @ column t (withModel l) f @ '',''\<rparr>)"
    using assms by (simp add: body_def writeField_def column_def)
  have 4: "body v ?l2 (CHR ''}'')
      = Next (l\<lparr>sqlbuf := sqlbuf l @ replicate k (CHR '' '') @ column t (withModel l) f, state := INIT\<rparr>)"
    using assms by (simp add: body_def writeField_def column_def)
  show "loop v l (replicate k (CHR '' '') @ f @ '','')
           = Next (l\<lparr>sqlbuf := sqlbuf l @ replicate k (CHR '' '') @ column t (withModel l) f @ '',''\<rparr>)"
    by (simp add: loop_append 1 2 3)
  show "loop v l (replicate k (CHR '' '') @ f @ ''}'')
           = Next (l\<lparr>sqlbuf := sqlbuf l @ replicate k (CHR '' '') @ column t (withModel l) f, state := INIT\<rparr>)"
    by (simp add: loop_append 1 2 4)
qed

lemma fieldsOf_Cons:
  "fieldsOf t ((k, f) # fs) = (fieldName f \<and> (\<exists>col. Fields t f = Some col) \<and> fieldsOf t fs)"
  by (auto simp: fieldsOf_def split: option.splits)

lemma loop_fieldPrefix:
  "state l = PARSING_FIELD \<Longrightarrow> fieldbuf l = [] \<Longrightarrow> table l = Some t \<Longrightarrow> fieldsOf t fs \<Longrightarrow>
   loop v l (fieldPrefix fs) = Next (l\<lparr>sqlbuf := sqlbuf l @ columnPrefix t (withModel l) fs\<rparr>)"
proof (induction fs arbitrary: l)
  case Nil
  then show ?case by simp
next
  case (Cons kf fs)
  obtain k f where kf: "kf = (k, f)" by (cases kf)
  from Cons.prems kf obtain col where f: "fieldName f" "Fields t f = Some col" and fs: "fieldsOf t fs"
    by (auto simp: fieldsOf_Cons)
  let ?l1 = "l\<lparr>sqlbuf := sqlbuf l @ replicate k (CHR '' '') @ column t (withModel l) f @ '',''\<rparr>"
  have 1: "loop v l (replicate k (CHR '' '') @ f @ '','') = Next ?l1"
    using Cons.prems(1-3) f by (rule loop_one_field(1))
  have 2: "loop v ?l1 (fieldPrefix fs) = Next (?l1\<lparr>sqlbuf := sqlbuf ?l1 @ columnPrefix t (withModel ?l1) fs\<rparr>)"
    using Cons.prems(1-3) fs by (intro Cons.IH) simp_all
  have "loop v l (fieldPrefix (kf # fs)) = loop v l ((replicate k (CHR '' '') @ f @ '','') @ fieldPrefix fs)"
    by (simp add: kf)
  also have "\<dots> = loop v ?l1 (fieldPrefix fs)"
    using 1 by (rule loop_Next_append)
  finally show ?case
    using 2 by (simp add: kf)
qed

lemma fieldList_as_prefix:
  "fs \<noteq> [] \<Longrightarrow> fieldList fs = fieldPrefix (butlast fs) @ replicate (fst (last fs)) (CHR '' '') @ snd (last fs)"
  by (induction fs rule: fieldList.induct) simp_all

lemma columnList_as_prefix:
  "fs \<noteq> [] \<Longrightarrow> columnList t b fs
     = columnPrefix t b (butlast fs) @ replicate (fst (last fs)) (CHR '' '') @ column t b (snd (last fs))"
  by (induction fs rule: fieldList.induct) simp_all

lemma fieldsOf_butlast: "fieldsOf t fs \<Longrightarrow> fieldsOf t (butlast fs)"
  by (auto simp: fieldsOf_def dest: in_set_butlastD)

lemma fieldsOf_last:
  "fieldsOf t fs \<Longrightarrow> fs \<noteq> [] \<Longrightarrow> fieldName (snd (last fs)) \<and> (\<exists>col. Fields t (snd (last fs)) = Some col)"
proof -
  assume a: "fieldsOf t fs" "fs \<noteq> []"
  obtain k f where kf: "last fs = (k, f)"
    by (cases "last fs")
  with a(2) have "(k, f) \<in> set fs"
    using last_in_set [of fs] by simp
  with a(1) kf show ?thesis
    by (auto simp: fieldsOf_def split: option.splits)
qed

lemma loop_fieldList:
  assumes "state l = PARSING_FIELD" "fieldbuf l = []" "table l = Some t" "fieldsOf t fs" "fs \<noteq> []"
  shows "loop v l (fieldList fs @ ''}'')
           = Next (l\<lparr>sqlbuf := sqlbuf l @ columnList t (withModel l) fs, state := INIT\<rparr>)"
proof -
  let ?k = "fst (last fs)" and ?f = "snd (last fs)"
  let ?l1 = "l\<lparr>sqlbuf := sqlbuf l @ columnPrefix t (withModel l) (butlast fs)\<rparr>"
  from fieldsOf_last [OF assms(4,5)] obtain col where f: "fieldName ?f" "Fields t ?f = Some col"
    by blast
  have 1: "loop v l (fieldPrefix (butlast fs)) = Next ?l1"
    using assms(1-3) fieldsOf_butlast [OF assms(4)] by (rule loop_fieldPrefix)
  have 2: "loop v ?l1 (replicate ?k (CHR '' '') @ ?f @ ''}'')
      = Next (?l1\<lparr>sqlbuf := sqlbuf ?l1 @ replicate ?k (CHR '' '') @ column t (withModel ?l1) ?f, state := INIT\<rparr>)"
    using assms(1-3) f by (intro loop_one_field(2)) simp_all
  have "loop v l (fieldList fs @ ''}'')
      = loop v l (fieldPrefix (butlast fs) @ (replicate ?k (CHR '' '') @ ?f @ ''}''))"
    using assms(5) by (simp add: fieldList_as_prefix)
  also have "\<dots> = loop v ?l1 (replicate ?k (CHR '' '') @ ?f @ ''}'')"
    using 1 by (rule loop_Next_append)
  finally show ?thesis
    using 2 assms(5) by (simp add: columnList_as_prefix)
qed

lemma loop_open:
  assumes "state l = INIT" "modelName m"
  shows "loop v l (''{'' @ m)
     = Next (l\<lparr>state := PARSING_MODEL, withModel := False, modelbuf := m, fieldbuf := []\<rparr>)"
proof -
  let ?l1 = "l\<lparr>state := PARSING_MODEL, withModel := False, modelbuf := [], fieldbuf := []\<rparr>"
  have "loop v ?l1 m = Next (?l1\<lparr>modelbuf := modelbuf ?l1 @ m\<rparr>)"
    using assms(2) by (intro loop_model_name) (simp_all add: modelName_def)
  then show ?thesis
    using assms(1) by (simp add: body_def)
qed

lemma loop_open_fields:
  assumes "state l = INIT" "modelName m" "Models v m = Some t"
  shows "loop v l (''{'' @ m @ (if qualified then ''.'' else '':''))
     = Next (l\<lparr>state := PARSING_FIELD, withModel := qualified, modelbuf := m, fieldbuf := [], table := Some t\<rparr>)"
proof -
  let ?l1 = "l\<lparr>state := PARSING_MODEL, withModel := False, modelbuf := m, fieldbuf := []\<rparr>"
  have "loop v l ((''{'' @ m) @ (if qualified then ''.'' else '':''))
      = loop v ?l1 (if qualified then ''.'' else '':'')"
    using loop_open [OF assms(1,2)] by (rule loop_Next_append)
  then show ?thesis
    using assms(3) by (simp add: body_def modelTable_def)
qed

lemma loop_placeholder:
  assumes "state l = INIT" "resolves v p"
  shows "\<exists>l'. loop v l (template1 p) = Next l' \<and> state l' = INIT \<and> sqlbuf l' = sqlbuf l @ expected1 v p"
proof (cases p)
  case (Text s)
  then show ?thesis
    using assms by (simp add: loop_text)
next
  case (Model m)
  with assms obtain t where m: "modelName m" "Models v m = Some t"
    by (auto split: option.splits)
  let ?l1 = "l\<lparr>state := PARSING_MODEL, withModel := False, modelbuf := m, fieldbuf := []\<rparr>"
  have "loop v l ((''{'' @ m) @ ''}'') = loop v ?l1 ''}''"
    using loop_open [OF assms(1) m(1)] by (rule loop_Next_append)
  then show ?thesis
    using m Model by (simp add: body_def writeModel_def modelTable_def)
next
  case (Columns m qf fs)
  with assms obtain t where m: "modelName m" "Models v m = Some t" "fs \<noteq> []" "fieldsOf t fs"
    by (auto split: option.splits)
  let ?l1 = "l\<lparr>state := PARSING_FIELD, withModel := qf, modelbuf := m, fieldbuf := [], table := Some t\<rparr>"
  have "loop v l ((''{'' @ m @ (if qf then ''.'' else '':'')) @ (fieldList fs @ ''}''))
      = loop v ?l1 (fieldList fs @ ''}'')"
    using loop_open_fields [OF assms(1) m(1,2)] by (rule loop_Next_append)
  also have "\<dots> = Next (?l1\<lparr>sqlbuf := sqlbuf ?l1 @ columnList t (withModel ?l1) fs, state := INIT\<rparr>)"
    using m by (intro loop_fieldList) simp_all
  finally show ?thesis
    using m Columns by simp
qed

lemma loop_template:
  "state l = INIT \<Longrightarrow> \<forall>p\<in>set ps. resolves v p \<Longrightarrow>
   \<exists>l'. loop v l (template ps) = Next l' \<and> state l' = INIT \<and> sqlbuf l' = sqlbuf l @ expected v ps"
proof (induction ps arbitrary: l)
  case Nil
  then show ?case by (simp add: template_def expected_def)
next
  case (Cons p ps)
  from loop_placeholder [of l v p] Cons.prems
  obtain l1 where 1: "loop v l (template1 p) = Next l1" "state l1 = INIT"
      "sqlbuf l1 = sqlbuf l @ expected1 v p"
    by auto
  from Cons.IH [OF 1(2)] Cons.prems(2)
  obtain l2 where 2: "loop v l1 (template ps) = Next l2" "state l2 = INIT"
      "sqlbuf l2 = sqlbuf l1 @ expected v ps"
    by auto
  have "loop v l (template (p # ps)) = loop v l1 (template ps)"
    using loop_Next_append [OF 1(1)] by (simp add: template_def)
  with 1 2 show ?case
    by (simp add: expected_def)
qed

lemma ascii_fieldPrefix: "fieldsOf t fs \<Longrightarrow> ascii (fieldPrefix fs)"
  by (induction fs) (auto simp: fieldsOf_Cons fieldName_def ascii_Cons)

lemma ascii_fieldList: "fieldsOf t fs \<Longrightarrow> fs \<noteq> [] \<Longrightarrow> ascii (fieldList fs)"
  using fieldsOf_last [of t fs] fieldsOf_butlast [of t fs]
  by (auto simp: fieldList_as_prefix ascii_fieldPrefix fieldName_def)

lemma ascii_template1: "resolves v p \<Longrightarrow> ascii (template1 p)"
  by (cases p) (auto simp: modelName_def ascii_Cons ascii_fieldList split: option.splits)

lemma ascii_template: "\<forall>p\<in>set ps. resolves v p \<Longrightarrow> ascii (template ps)"
  by (induction ps) (auto simp: template_def ascii_template1)

lemma conv_template:
  assumes "\<forall>p\<in>set ps. resolves v p"
  shows "conv v (template ps) = Inr (expected v ps, None)"
proof -
  have "state entry = INIT" "sqlbuf entry = []"
    by (simp_all add: entry_def)
  with loop_template [of entry ps v] assms
  obtain l' where "loop v entry (template ps) = Next l'" "sqlbuf l' = expected v ps"
    by auto
  then show ?thesis
    by (simp add: conv_def rangeBytes_ascii ascii_template [OF assms])
qed

subsection \<open>What the loop keeps true\<close>

lemma tableKnown_entry: "tableKnown v entry"
  by (simp add: tableKnown_def entry_def)

lemma body_tableKnown: "tableKnown v l \<Longrightarrow> body v l c = Next l' \<Longrightarrow> tableKnown v l'"
  by (cases "state l")
     (auto simp: body_def tableKnown_def writeModel_def writeField_def modelTable_def Let_def
           split: if_splits option.splits sum.splits prod.splits)

lemma body_no_panic: "tableKnown v l \<Longrightarrow> body v l c \<noteq> Panic pn"
  by (cases "state l")
     (auto simp: body_def tableKnown_def writeModel_def writeField_def modelTable_def Let_def
           split: if_splits option.splits sum.splits prod.splits)

lemma body_error:
  "tableKnown v l \<Longrightarrow> body v l c = Return e \<Longrightarrow>
   (\<exists>m. e = notRegistered m \<and> Models v m = None)
   \<or> (\<exists>f m t. e = fieldNotFound f m \<and> Models v m = Some t \<and> Fields t f = None)"
  by (cases "state l")
     (auto simp: body_def tableKnown_def writeModel_def writeField_def modelTable_def Let_def
           split: if_splits option.splits sum.splits prod.splits)

lemma loop_no_panic: "tableKnown v l \<Longrightarrow> loop v l cs \<noteq> Panic pn"
proof (induction cs arbitrary: l)
  case Nil
  then show ?case by simp
next
  case (Cons c cs)
  then show ?case
    using body_no_panic [of v l c] body_tableKnown [of v l c]
    by (cases "body v l c") auto
qed

lemma loop_error:
  "tableKnown v l \<Longrightarrow> loop v l cs = Return e \<Longrightarrow>
   (\<exists>m. e = notRegistered m \<and> Models v m = None)
   \<or> (\<exists>f m t. e = fieldNotFound f m \<and> Models v m = Some t \<and> Fields t f = None)"
proof (induction cs arbitrary: l)
  case Nil
  then show ?case by simp
next
  case (Cons c cs)
  show ?case
  proof (cases "body v l c")
    case (Next l')
    with Cons.prems have "tableKnown v l'" "loop v l' cs = Return e"
      by (auto dest: body_tableKnown)
    then show ?thesis by (rule Cons.IH)
  next
    case (Return e')
    with Cons.prems have "body v l c = Return e" by simp
    with Cons.prems(1) show ?thesis by (rule body_error)
  next
    case (Panic pn)
    with Cons.prems show ?thesis by simp
  qed
qed

lemma conv_outcome:
  "\<exists>out err. conv v q = Inr (out, err) \<and>
     (\<forall>e. err = Some e \<longrightarrow> out = [] \<and>
        ((\<exists>m. e = notRegistered m \<and> Models v m = None)
         \<or> (\<exists>f m t. e = fieldNotFound f m \<and> Models v m = Some t \<and> Fields t f = None)))"
proof (cases "loop v entry (rangeBytes q)")
  case (Next l)
  then show ?thesis by (simp add: conv_def)
next
  case (Return e)
  with loop_error [OF tableKnown_entry this] show ?thesis
    by (simp add: conv_def)
next
  case (Panic pn)
  with loop_no_panic [OF tableKnown_entry] show ?thesis by blast
qed

lemma loop_into_fields:
  assumes "state l = INIT" "modelName m" "Models v m = Some t" "fieldsOf t fs" "fieldName f"
  shows "loop v l (''{'' @ m @ (if qf then ''.'' else '':'') @ fieldPrefix fs @ replicate k (CHR '' '') @ f)
     = Next (l\<lparr>state := PARSING_FIELD, withModel := qf, modelbuf := m, fieldbuf := f, table := Some t,
               sqlbuf := sqlbuf l @ columnPrefix t qf fs @ replicate k (CHR '' '')\<rparr>)"
proof -
  let ?l1 = "l\<lparr>state := PARSING_FIELD, withModel := qf, modelbuf := m, fieldbuf := [], table := Some t\<rparr>"
  let ?l2 = "?l1\<lparr>sqlbuf := sqlbuf ?l1 @ columnPrefix t (withModel ?l1) fs\<rparr>"
  let ?l3 = "?l2\<lparr>sqlbuf := sqlbuf ?l2 @ replicate k (CHR '' '')\<rparr>"
  have 1: "loop v l (''{'' @ m @ (if qf then ''.'' else '':'')) = Next ?l1"
    using assms(1-3) by (rule loop_open_fields)
  have 2: "loop v ?l1 (fieldPrefix fs) = Next ?l2"
    using assms(4) by (intro loop_fieldPrefix) simp_all
  have 3: "loop v ?l2 (replicate k (CHR '' '')) = Next ?l3"
    by (intro loop_spaces) simp
  have 4: "loop v ?l3 f = Next (?l3\<lparr>fieldbuf := fieldbuf ?l3 @ f\<rparr>)"
    using assms(5) by (intro loop_field_name) (simp_all add: fieldName_def)
  have "loop v l ((''{'' @ m @ (if qf then ''.'' else '':'')) @ fieldPrefix fs @ replicate k (CHR '' '') @ f)
      = Next (?l3\<lparr>fieldbuf := fieldbuf ?l3 @ f\<rparr>)"
    by (simp only: loop_Next_append [OF 1] loop_Next_append [OF 2] loop_Next_append [OF 3] 4)
  then show ?thesis
    by simp
qed

lemma ascii_sep: "ascii (if qf then ''.'' else '':'')"
  by (simp add: ascii_Cons)

lemma scan_after_template:
  assumes "\<forall>p\<in>set ps. resolves v p" "ascii xs"
  shows "\<exists>l0. state l0 = INIT \<and> sqlbuf l0 = expected v ps
          \<and> loop v entry (rangeBytes (template ps @ xs @ rest)) = loop v l0 (xs @ rangeBytes rest)"
proof -
  have "state entry = INIT" "sqlbuf entry = []"
    by (simp_all add: entry_def)
  with loop_template [of entry ps v] assms(1)
  obtain l0 where l0: "loop v entry (template ps) = Next l0" "state l0 = INIT" "sqlbuf l0 = expected v ps"
    by auto
  have "ascii (template ps @ xs)"
    using ascii_template [OF assms(1)] assms(2) by simp
  then have "rangeBytes ((template ps @ xs) @ rest) = (template ps @ xs) @ rangeBytes rest"
    by (rule rangeBytes_ascii_append)
  then have "loop v entry (rangeBytes (template ps @ xs @ rest)) = loop v l0 (xs @ rangeBytes rest)"
    using loop_Next_append [OF l0(1)] by simp
  with l0 show ?thesis
    by blast
qed

lemma conv_unknown_model:
  assumes "\<forall>p\<in>set ps. resolves v p" "modelName m" "Models v m = None"
    and "d \<in> {CHR ''}'', CHR ''.'', CHR '':''}"
  shows "conv v (template ps @ ''{'' @ m @ [d] @ rest) = Inr ([], Some (notRegistered m))"
proof -
  have a: "ascii (''{'' @ m @ [d])"
    using assms(2,4) by (auto simp: modelName_def ascii_Cons)
  from scan_after_template [OF assms(1) a, of rest]
  obtain l0 where l0: "state l0 = INIT"
      "loop v entry (rangeBytes (template ps @ (''{'' @ m @ [d]) @ rest))
        = loop v l0 ((''{'' @ m @ [d]) @ rangeBytes rest)"
    by blast
  let ?l1 = "l0\<lparr>state := PARSING_MODEL, withModel := False, modelbuf := m, fieldbuf := []\<rparr>"
  have "loop v l0 ((''{'' @ m) @ d # rangeBytes rest) = loop v ?l1 (d # rangeBytes rest)"
    using loop_open [OF l0(1) assms(2)] by (rule loop_Next_append)
  moreover have "body v ?l1 d = Return (notRegistered m)"
    using assms(3,4) by (auto simp: body_def writeModel_def modelTable_def)
  ultimately have "loop v l0 ((''{'' @ m @ [d]) @ rangeBytes rest) = Return (notRegistered m)"
    by simp
  with l0(2) show ?thesis
    by (simp add: conv_def)
qed

lemma conv_unknown_field:
  assumes "\<forall>p\<in>set ps. resolves v p" "modelName m" "Models v m = Some t" "fieldsOf t fs"
    and "fieldName f" "Fields t f = None" "d \<in> {CHR '','', CHR ''}''}"
  shows "conv v (template ps @ ''{'' @ m @ (if qf then ''.'' else '':'') @ fieldPrefix fs
                  @ replicate k (CHR '' '') @ f @ [d] @ rest)
           = Inr ([], Some (fieldNotFound f m))"
proof -
  let ?xs = "''{'' @ m @ (if qf then ''.'' else '':'') @ fieldPrefix fs @ replicate k (CHR '' '') @ f"
  have a: "ascii (?xs @ [d])"
    using assms(2,4,5,7) ascii_fieldPrefix [OF assms(4)]
    by (auto simp: modelName_def fieldName_def ascii_Cons)
  from scan_after_template [OF assms(1) a, of rest]
  obtain l0 where l0: "state l0 = INIT"
      "loop v entry (rangeBytes (template ps @ (?xs @ [d]) @ rest))
        = loop v l0 ((?xs @ [d]) @ rangeBytes rest)"
    by blast
  let ?l1 = "l0\<lparr>state := PARSING_FIELD, withModel := qf, modelbuf := m, fieldbuf := f, table := Some t,
               sqlbuf := sqlbuf l0 @ columnPrefix t qf fs @ replicate k (CHR '' '')\<rparr>"
  have "loop v l0 (?xs @ d # rangeBytes rest) = loop v ?l1 (d # rangeBytes rest)"
    using loop_into_fields [OF l0(1) assms(2-5)] by (rule loop_Next_append)
  moreover have "body v ?l1 d = Return (fieldNotFound f m)"
    using assms(6,7) by (auto simp: body_def writeField_def)
  ultimately have "loop v l0 ((?xs @ [d]) @ rangeBytes rest) = Return (fieldNotFound f m)"
    by simp
  with l0(2) show ?thesis
    by (simp add: conv_def)
qed

lemma conv_open_model:
  assumes "\<forall>p\<in>set ps. resolves v p" "modelName m"
  shows "conv v (template ps @ ''{'' @ m) = Inr (expected v ps, None)"
proof -
  have a: "ascii (''{'' @ m)"
    using assms(2) by (auto simp: modelName_def ascii_Cons)
  from scan_after_template [OF assms(1) a, of "[]"]
  obtain l0 where l0: "state l0 = INIT" "sqlbuf l0 = expected v ps"
      "loop v entry (rangeBytes (template ps @ (''{'' @ m) @ [])) = loop v l0 ((''{'' @ m) @ rangeBytes [])"
    by blast
  with loop_open [OF l0(1) assms(2), of v] show ?thesis
    by (simp add: conv_def)
qed

lemma conv_open_field:
  assumes "\<forall>p\<in>set ps. resolves v p" "modelName m" "Models v m = Some t" "fieldsOf t fs" "fieldName f"
  shows "conv v (template ps @ ''{'' @ m @ (if qf then ''.'' else '':'') @ fieldPrefix fs
                  @ replicate k (CHR '' '') @ f)
           = Inr (expected v ps @ columnPrefix t qf fs @ replicate k (CHR '' ''), None)"
proof -
  let ?xs = "''{'' @ m @ (if qf then ''.'' else '':'') @ fieldPrefix fs @ replicate k (CHR '' '') @ f"
  have a: "ascii ?xs"
    using assms(2,4,5) ascii_fieldPrefix [OF assms(4)]
    by (auto simp: modelName_def fieldName_def ascii_Cons)
  from scan_after_template [OF assms(1) a, of "[]"]
  obtain l0 where l0: "state l0 = INIT" "sqlbuf l0 = expected v ps"
      "loop v entry (rangeBytes (template ps @ ?xs @ [])) = loop v l0 (?xs @ rangeBytes [])"
    by blast
  from l0(3) have "loop v entry (rangeBytes (template ps @ ?xs)) = loop v l0 ?xs"
    by simp
  with loop_into_fields [OF l0(1) assms(2-5), of qf k] l0(2) show ?thesis
    by (simp add: conv_def)
qed

subsection \<open>The three forms of a placeholder, in ASCII\<close>

lemma conv_example:
  "conv userVisitor ''SELECT {User.Id, Name} FROM {User} WHERE {User:Id} = ?''
     = Inr (''SELECT users.id, users.name FROM users WHERE id = ?'', None)"
  by (simp add: conv_def userVisitor_def entry_def body_def writeModel_def writeField_def
      modelTable_def first_def)

text \<open>
  With the registry of the example (\<open>User\<close> is the table \<open>users\<close>, \<open>Id\<close> the column
  \<open>id\<close>, \<open>Name\<close> the column \<open>name\<close>), \<open>conv\<close> returns the SQL of the example and no
  error. For every registry and every template in ASCII made of literal text,
  \<open>{Model}\<close>, \<open>{Model:F1, F2}\<close> and \<open>{Model.F1, F2}\<close> whose names are registered, \<open>conv\<close>
  returns no error and the text in which \<open>{Model}\<close> is the table name, the fields of
  \<open>{Model:\<dots>}\<close> are their column names, the fields of \<open>{Model.\<dots>}\<close> are their column
  names after the table name and a dot, and the commas and the spaces after them are as
  in the template.
\<close>

theorem conv_resolves_placeholders:
  "conv userVisitor ''SELECT {User.Id, Name} FROM {User} WHERE {User:Id} = ?''
     = Inr (''SELECT users.id, users.name FROM users WHERE id = ?'', None)
   \<and> ((\<forall>p\<in>set ps. resolves v p) \<longrightarrow> conv v (template ps) = Inr (expected v ps, None))"
  using conv_example conv_template [of ps v] by blast

text \<open>
  The example is such a template; so is one with other spacing and a lone qualified
  field.
\<close>

theorem conv_resolves_placeholders_examples:
  "list_all (resolves userVisitor)
     [Text ''SELECT '', Columns ''User'' True [(0, ''Id''), (1, ''Name'')], Text '' FROM '',
       Model ''User'', Text '' WHERE '', Columns ''User'' False [(0, ''Id'')], Text '' = ?'']
   \<and> template [Text ''SELECT '', Columns ''User'' True [(0, ''Id''), (1, ''Name'')], Text '' FROM '',
       Model ''User'', Text '' WHERE '', Columns ''User'' False [(0, ''Id'')], Text '' = ?'']
       = ''SELECT {User.Id, Name} FROM {User} WHERE {User:Id} = ?''
   \<and> conv userVisitor ''SELECT {User.Id, Name} FROM {User} WHERE {User:Id} = ?''
       = Inr (''SELECT users.id, users.name FROM users WHERE id = ?'', None)
   \<and> conv userVisitor ''{User:Name,  Id} {User.Name}'' = Inr (''name,  id users.name'', None)"
proof -
  let ?ps = "[Text ''SELECT '', Columns ''User'' True [(0, ''Id''), (1, ''Name'')], Text '' FROM '',
     Model ''User'', Text '' WHERE '', Columns ''User'' False [(0, ''Id'')], Text '' = ?'']"
  let ?qs = "[Columns ''User'' False [(0, ''Name''), (2, ''Id'')], Text '' '',
     Columns ''User'' True [(0, ''Name'')]]"
  have r: "\<forall>p\<in>set ?ps. resolves userVisitor p"
    by (simp add: userVisitor_def modelName_def fieldName_def fieldsOf_def ascii_def)
  have t: "template ?ps = ''SELECT {User.Id, Name} FROM {User} WHERE {User:Id} = ?''"
    by (simp add: template_def)
  have e: "expected userVisitor ?ps = ''SELECT users.id, users.name FROM users WHERE id = ?''"
    by (simp add: expected_def userVisitor_def column_def)
  have r': "\<forall>p\<in>set ?qs. resolves userVisitor p"
    by (simp add: userVisitor_def modelName_def fieldName_def fieldsOf_def ascii_def)
  have t': "template ?qs = ''{User:Name,  Id} {User.Name}''"
    by (simp add: template_def numeral_2_eq_2)
  have e': "expected userVisitor ?qs = ''name,  id users.name''"
    by (simp add: expected_def userVisitor_def column_def numeral_2_eq_2)
  from conv_resolves_placeholders [of ?ps userVisitor] r
  have 1: "conv userVisitor (template ?ps) = Inr (expected userVisitor ?ps, None)"
    by blast
  from conv_resolves_placeholders [of ?qs userVisitor] r'
  have 2: "conv userVisitor (template ?qs) = Inr (expected userVisitor ?qs, None)"
    by blast
  have r'': "list_all (resolves userVisitor) ?ps"
    using r by (simp only: list_all_iff)
  from 1 2 r'' t show ?thesis
    unfolding t e t' e' by blast
qed

subsection \<open>Unknown names, in ASCII\<close>

text \<open>
  \<open>conv\<close> never panics, and whenever it returns an error the output string is empty
  and the error is one of the two messages, with the name of a model that is not
  registered, or with a registered model and a name that is not a field of its table: a
  template resolves as a whole or not at all. With names in ASCII such an error does
  come: after any placeholders that resolve, a placeholder \<open>{m}\<close>, \<open>{m.\<close> or \<open>{m:\<close> with an unregistered
  \<open>m\<close> makes \<open>conv\<close> return the error naming \<open>m\<close>, and a field list of a registered model
  whose fields resolve up to a field \<open>f\<close> that the table does not have makes \<open>conv\<close>
  return the error naming \<open>f\<close> and the model, whatever follows in the template.
\<close>

theorem conv_unknown_name_fails:
  "(\<exists>out err. conv v q = Inr (out, err) \<and>
      (\<forall>e. err = Some e \<longrightarrow> out = [] \<and>
         ((\<exists>m. e = notRegistered m \<and> Models v m = None)
          \<or> (\<exists>f m t. e = fieldNotFound f m \<and> Models v m = Some t \<and> Fields t f = None))))
   \<and> ((\<forall>p\<in>set ps. resolves v p) \<and> modelName m \<and> Models v m = None
        \<and> d \<in> {CHR ''}'', CHR ''.'', CHR '':''} \<longrightarrow>
        conv v (template ps @ ''{'' @ m @ [d] @ rest) = Inr ([], Some (notRegistered m)))
   \<and> ((\<forall>p\<in>set ps. resolves v p) \<and> modelName m' \<and> Models v m' = Some t \<and> fieldsOf t fs
        \<and> fieldName f \<and> Fields t f = None \<and> d' \<in> {CHR '','', CHR ''}''} \<longrightarrow>
        conv v (template ps @ ''{'' @ m' @ (if qf then ''.'' else '':'') @ fieldPrefix fs
                 @ replicate k (CHR '' '') @ f @ [d'] @ rest')
          = Inr ([], Some (fieldNotFound f m')))"
  using conv_outcome [of v q] conv_unknown_model [of ps v m d rest]
    conv_unknown_field [of ps v m' t fs f d' qf k rest']
  by blast

text \<open>
  An unregistered model, alone and after text that was already copied, and a misspelt
  field after one that resolved.
\<close>

theorem conv_unknown_name_fails_examples:
  "Models userVisitor ''Ghost'' = None
   \<and> conv userVisitor ''{Ghost}'' = Inr ([], Some (notRegistered ''Ghost''))
   \<and> conv userVisitor ''SELECT {User.Id} FROM {Ghost:Id} WHERE 1''
       = Inr ([], Some (notRegistered ''Ghost''))
   \<and> conv userVisitor ''SELECT {User.Id, Nme} FROM {User}''
       = Inr ([], Some (fieldNotFound ''Nme'' ''User''))
   \<and> notRegistered ''Ghost'' = Error (''model Ghost isn'' @ [CHR 0x27] @ ''t registered'')
   \<and> fieldNotFound ''Nme'' ''User'' = Error ''field Nme of model User not found''"
proof -
  let ?t = "\<lparr>Name = ''users'', Fields = [''Id'' \<mapsto> ''id'', ''Name'' \<mapsto> ''name'']\<rparr>"
  let ?ps = "[Text ''SELECT '', Columns ''User'' True [(0, ''Id'')], Text '' FROM '']"
  let ?qs = "[Text ''SELECT '']"
  have g: "Models userVisitor ''Ghost'' = None" and u: "Models userVisitor ''User'' = Some ?t"
    by (simp_all add: userVisitor_def)
  have n: "modelName ''Ghost''" "modelName ''User''" "fieldName ''Nme''" "fieldsOf ?t [(0, ''Id'')]"
    "Fields ?t ''Nme'' = None"
    by (simp_all add: modelName_def fieldName_def fieldsOf_def ascii_def)
  have r: "\<forall>p\<in>set ?ps. resolves userVisitor p" "\<forall>p\<in>set ?qs. resolves userVisitor p"
    "\<forall>p\<in>set []. resolves userVisitor p"
    by (simp_all add: userVisitor_def modelName_def fieldName_def fieldsOf_def ascii_def)
  from conv_unknown_name_fails [of userVisitor "[]" "[]" "''Ghost''" "CHR ''}''" "[]"] r(3) n(1) g
  have "conv userVisitor (template [] @ ''{'' @ ''Ghost'' @ [CHR ''}''] @ [])
      = Inr ([], Some (notRegistered ''Ghost''))"
    by blast
  then have 1: "conv userVisitor ''{Ghost}'' = Inr ([], Some (notRegistered ''Ghost''))"
    by (simp add: template_def)
  from conv_unknown_name_fails [of userVisitor "[]" ?ps "''Ghost''" "CHR '':''" "''Id} WHERE 1''"]
    r(1) n(1) g
  have "conv userVisitor (template ?ps @ ''{'' @ ''Ghost'' @ [CHR '':''] @ ''Id} WHERE 1'')
      = Inr ([], Some (notRegistered ''Ghost''))"
    by blast
  then have 2: "conv userVisitor ''SELECT {User.Id} FROM {Ghost:Id} WHERE 1''
      = Inr ([], Some (notRegistered ''Ghost''))"
    by (simp add: template_def)
  from conv_unknown_name_fails [of userVisitor "[]" ?qs _ _ _ "''User''" ?t "[(0, ''Id'')]" "''Nme''"
      "CHR ''}''" True 1 "'' FROM {User}''"] r(2) n u
  have "conv userVisitor (template ?qs @ ''{'' @ ''User'' @ (if True then ''.'' else '':'')
        @ fieldPrefix [(0, ''Id'')] @ replicate 1 (CHR '' '') @ ''Nme'' @ [CHR ''}''] @ '' FROM {User}'')
      = Inr ([], Some (fieldNotFound ''Nme'' ''User''))"
    by blast
  then have 3: "conv userVisitor ''SELECT {User.Id, Nme} FROM {User}''
      = Inr ([], Some (fieldNotFound ''Nme'' ''User''))"
    by (simp add: template_def)
  have 4: "notRegistered ''Ghost'' = Error (''model Ghost isn'' @ [CHR 0x27] @ ''t registered'')"
    "fieldNotFound ''Nme'' ''User'' = Error ''field Nme of model User not found''"
    by (simp_all add: notRegistered_def fieldNotFound_def)
  from g 1 2 3 4 show ?thesis
    by blast
qed

subsection \<open>Names outside ASCII\<close>

text \<open>
  \<open>for i := range sql\<close> advances by a whole UTF-8 sequence while \<open>c := sql[i]\<close> is the
  first byte of the sequence alone, so the loop body never sees the other bytes: of the
  two bytes \<open>C3 A9\<close> of \<open>U+00E9\<close> the second one reaches neither the output nor a name
  buffer.
\<close>

lemma range_skips_continuation_bytes:
  "rangeBytes (''a'' @ [CHR 0xC3, CHR 0xA9] @ ''b'') = ''a'' @ [CHR 0xC3] @ ''b''
   \<and> conv v (''a'' @ [CHR 0xC3, CHR 0xA9] @ ''b'') = Inr (''a'' @ [CHR 0xC3] @ ''b'', None)"
  by (simp add: conv_def entry_def body_def first_def inRange_def)

text \<open>
  C1. The comment above \<open>conv\<close> gives the table name for \<open>{Model}\<close> and the column names
  for the two field lists, for any model. With the registry of the example \<open>conv\<close> returns
  the SQL of the example and no error. With a registered model whose name is not in ASCII
  it does not emit the table name: for the model named \<open>U+00DC\<close> (the bytes \<open>C3 9C\<close>)
  followed by \<open>ser\<close>, with the table \<open>users\<close>, the name the loop collects from the
  placeholder lacks the byte \<open>9C\<close>, the lookup misses, and \<open>conv\<close> returns the empty
  string and the error that the collected name is not registered.
\<close>

theorem conv_loses_bytes_of_model_name:
  "conv userVisitor ''SELECT {User.Id, Name} FROM {User} WHERE {User:Id} = ?''
     = Inr (''SELECT users.id, users.name FROM users WHERE id = ?'', None)
   \<and> Models nonAsciiVisitor ([CHR 0xC3, CHR 0x9C] @ ''ser'')
       = Some \<lparr>Name = ''users'', Fields = [''Id'' \<mapsto> ''id'']\<rparr>
   \<and> conv nonAsciiVisitor (''{'' @ [CHR 0xC3, CHR 0x9C] @ ''ser}'')
       = Inr ([], Some (notRegistered ([CHR 0xC3] @ ''ser'')))"
proof -
  have "Models nonAsciiVisitor ([CHR 0xC3, CHR 0x9C] @ ''ser'')
       = Some \<lparr>Name = ''users'', Fields = [''Id'' \<mapsto> ''id'']\<rparr>"
    by (simp add: nonAsciiVisitor_def)
  moreover have "conv nonAsciiVisitor (''{'' @ [CHR 0xC3, CHR 0x9C] @ ''ser}'')
       = Inr ([], Some (notRegistered ([CHR 0xC3] @ ''ser'')))"
    by (simp add: conv_def nonAsciiVisitor_def entry_def body_def writeModel_def modelTable_def
        first_def inRange_def)
  ultimately show ?thesis
    using conv_example by simp
qed

text \<open>
  C4. An error of \<open>conv\<close> always comes with the empty output string, but the name in it
  is the name the loop collected, not always the name in the template: for the
  placeholder of the unregistered model \<open>Gh\<close>, \<open>U+00F6\<close> (the bytes \<open>C3 B6\<close>), \<open>st\<close> the
  error names \<open>Gh\<close>, \<open>C3\<close>, \<open>st\<close>, which is another name.
\<close>

theorem conv_error_names_other_model:
  "Models userVisitor (''Gh'' @ [CHR 0xC3, CHR 0xB6] @ ''st'') = None
   \<and> conv userVisitor (''{Gh'' @ [CHR 0xC3, CHR 0xB6] @ ''st}'')
       = Inr ([], Some (notRegistered (''Gh'' @ [CHR 0xC3] @ ''st'')))
   \<and> notRegistered (''Gh'' @ [CHR 0xC3] @ ''st'')
       \<noteq> notRegistered (''Gh'' @ [CHR 0xC3, CHR 0xB6] @ ''st'')"
proof -
  have "Models userVisitor (''Gh'' @ [CHR 0xC3, CHR 0xB6] @ ''st'') = None"
    by (simp add: userVisitor_def)
  moreover have "conv userVisitor (''{Gh'' @ [CHR 0xC3, CHR 0xB6] @ ''st}'')
       = Inr ([], Some (notRegistered (''Gh'' @ [CHR 0xC3] @ ''st'')))"
    by (simp add: conv_def userVisitor_def entry_def body_def writeModel_def modelTable_def
        first_def inRange_def)
  moreover have "notRegistered (''Gh'' @ [CHR 0xC3] @ ''st'')
       \<noteq> notRegistered (''Gh'' @ [CHR 0xC3, CHR 0xB6] @ ''st'')"
    by (simp add: notRegistered_def)
  ultimately show ?thesis
    by simp
qed

subsection \<open>A placeholder that is not closed\<close>

text \<open>
  C9. When the loop reaches the end of the template in the state \<open>PARSING_MODEL\<close> or
  \<open>PARSING_FIELD\<close>, \<open>conv\<close> returns what is in \<open>sqlbuf\<close> at that point and a \<open>nil\<close> error.
  So, after placeholders that resolve, a template that ends in \<open>{\<close> and a model name
  returns the text of what came before, and the name is dropped, registered or not; a
  template that ends inside a field list returns in addition the columns of the fields
  that were closed by a comma, and the last field name is dropped, a field of the table
  or not. No error reports the missing \<open>}\<close>.
\<close>

theorem conv_unterminated_placeholder:
  "(\<forall>l. loop v entry (rangeBytes q) = Next l \<and> state l \<noteq> INIT \<longrightarrow> conv v q = Inr (sqlbuf l, None))
   \<and> ((\<forall>p\<in>set ps. resolves v p) \<and> modelName m \<longrightarrow>
        conv v (template ps @ ''{'' @ m) = Inr (expected v ps, None))
   \<and> ((\<forall>p\<in>set ps. resolves v p) \<and> modelName m' \<and> Models v m' = Some t \<and> fieldsOf t fs
        \<and> fieldName f \<longrightarrow>
        conv v (template ps @ ''{'' @ m' @ (if qf then ''.'' else '':'') @ fieldPrefix fs
                 @ replicate k (CHR '' '') @ f)
          = Inr (expected v ps @ columnPrefix t qf fs @ replicate k (CHR '' ''), None))"
proof -
  have "\<forall>l. loop v entry (rangeBytes q) = Next l \<and> state l \<noteq> INIT \<longrightarrow> conv v q = Inr (sqlbuf l, None)"
    by (simp add: conv_def)
  with conv_open_model [of ps v m] conv_open_field [of ps v m' t fs f qf k]
  show ?thesis
    by blast
qed

theorem conv_unterminated_placeholder_witness:
  "loop userVisitor entry (rangeBytes ''a{User:'')
     = Next \<lparr>state = PARSING_FIELD, sqlbuf = ''a'', modelbuf = ''User'', fieldbuf = [],
         table = Models userVisitor ''User'', withModel = False\<rparr>
   \<and> conv userVisitor ''a{User:'' = Inr (''a'', None)
   \<and> conv userVisitor ''SELECT {User} FROM {Ghost'' = Inr (''SELECT users FROM '', None)
   \<and> conv userVisitor ''SELECT {User.Id, Nme'' = Inr (''SELECT users.id, '', None)"
proof -
  let ?t = "\<lparr>Name = ''users'', Fields = [''Id'' \<mapsto> ''id'', ''Name'' \<mapsto> ''name'']\<rparr>"
  let ?l = "\<lparr>state = PARSING_FIELD, sqlbuf = ''a'', modelbuf = ''User'', fieldbuf = [],
         table = Models userVisitor ''User'', withModel = False\<rparr>"
  let ?ps = "[Text ''SELECT '', Model ''User'', Text '' FROM '']"
  let ?qs = "[Text ''SELECT '']"
  have u: "Models userVisitor ''User'' = Some ?t"
    by (simp add: userVisitor_def)
  have n: "modelName ''Ghost''" "modelName ''User''" "fieldName ''Nme''" "fieldsOf ?t [(0, ''Id'')]"
    by (simp_all add: modelName_def fieldName_def fieldsOf_def ascii_def)
  have r: "\<forall>p\<in>set ?ps. resolves userVisitor p" "\<forall>p\<in>set ?qs. resolves userVisitor p"
    by (simp_all add: userVisitor_def modelName_def ascii_def)
  have 0: "loop userVisitor entry (rangeBytes ''a{User:'') = Next ?l"
    by (simp add: userVisitor_def entry_def body_def modelTable_def first_def)
  have s: "state ?l \<noteq> INIT" "sqlbuf ?l = ''a''"
    by simp_all
  from conv_unterminated_placeholder [of userVisitor "''a{User:''"] 0 s(1)
  have "conv userVisitor ''a{User:'' = Inr (sqlbuf ?l, None)"
    by blast
  then have 1: "conv userVisitor ''a{User:'' = Inr (''a'', None)"
    by simp
  from conv_unterminated_placeholder [of userVisitor "[]" ?ps "''Ghost''"] r(1) n(1)
  have "conv userVisitor (template ?ps @ ''{'' @ ''Ghost'') = Inr (expected userVisitor ?ps, None)"
    by blast
  then have 2: "conv userVisitor ''SELECT {User} FROM {Ghost'' = Inr (''SELECT users FROM '', None)"
    by (simp add: template_def expected_def userVisitor_def)
  from conv_unterminated_placeholder [of userVisitor "[]" ?qs _ "''User''" ?t "[(0, ''Id'')]" "''Nme''"
      True 1] r(2) n u
  have "conv userVisitor (template ?qs @ ''{'' @ ''User'' @ (if True then ''.'' else '':'')
        @ fieldPrefix [(0, ''Id'')] @ replicate 1 (CHR '' '') @ ''Nme'')
      = Inr (expected userVisitor ?qs @ columnPrefix ?t True [(0, ''Id'')] @ replicate 1 (CHR '' ''), None)"
    by blast
  then have 3: "conv userVisitor ''SELECT {User.Id, Nme'' = Inr (''SELECT users.id, '', None)"
    by (simp add: template_def expected_def column_def)
  from 0 1 2 3 show ?thesis
    by blast
qed

end
